theory Spec2Isabelle
  imports Complex_Main
begin

section \<open>JavaScript values and strings\<close>

text \<open>
  The task manager receives dynamically typed arguments. The values a caller can pass
  are modelled by \<open>jsval\<close>. \<open>JNum\<close> carries an integer, since no operation here looks
  at a number beyond its being one. \<open>JObject\<close> stands for any object or array and
  carries the result of converting it to a string: \<open>Some s\<close> when the conversion gives
  \<open>s\<close>, and \<open>None\<close> when it raises a \<open>TypeError\<close>, as it does for an object whose
  \<open>toString\<close> is not callable and whose \<open>valueOf\<close> returns the object (the body
  \<open>{"toString": null}\<close> of a request parses to one). \<open>JSymbol\<close> is a symbol. A
  JavaScript string is modelled as an Isabelle \<open>string\<close>, one \<open>char\<close> per code unit,
  which covers the strings whose code units are below 256; \<open>length\<close> is the string's
  \<open>.length\<close>.
\<close>

datatype jsval =
  JUndefined | JNull | JBool bool | JNum int | JStr string | JObject "string option" | JSymbol

text \<open>
  \<open>String.prototype.trim\<close> removes white space and line terminators from both ends. Among
  the code units below 256 these are TAB, LF, VT, FF, CR, SPACE and NO-BREAK SPACE.
\<close>

definition isWhiteSpace :: "char \<Rightarrow> bool" where
  "isWhiteSpace c = (of_char c \<in> {9, 10, 11, 12, 13, 32, 160 :: nat})"

definition trim :: "string \<Rightarrow> string" where
  "trim s = rev (dropWhile isWhiteSpace (rev (dropWhile isWhiteSpace s)))"

text \<open>
  The decimal digits of a non-negative integer, as a template literal renders the result
  of \<open>Date.now()\<close>.
\<close>

definition digitChar :: "nat \<Rightarrow> char" where
  "digitChar d = ''0123456789'' ! d"

fun toString :: "nat \<Rightarrow> string" where
  "toString n =
     (if n < 10 then [digitChar n]
      else toString (n div 10) @ [digitChar (n mod 10)])"

declare toString.simps [simp del]

definition isDigit :: "char \<Rightarrow> bool" where
  "isDigit c = (c \<in> set ''0123456789'')"

text \<open>\<open>Array.prototype.join\<close> on an array of strings.\<close>

fun join :: "string \<Rightarrow> string list \<Rightarrow> string" where
  "join sep [] = []"
| "join sep [x] = x"
| "join sep (x # y # ys) = x @ sep @ join sep (y # ys)"

text \<open>
  The conversion to a string that a template literal applies to an interpolated value.
  It raises a \<open>TypeError\<close> (\<open>None\<close>) for a symbol and for an object that has no
  primitive value.
\<close>

definition templateString :: "jsval \<Rightarrow> string option" where
  "templateString v =
     (case v of
        JUndefined \<Rightarrow> Some ''undefined''
      | JNull \<Rightarrow> Some ''null''
      | JBool b \<Rightarrow> Some (if b then ''true'' else ''false'')
      | JNum n \<Rightarrow> Some (if n < 0 then ''-'' @ toString (nat (- n)) else toString (nat n))
      | JStr s \<Rightarrow> Some s
      | JObject r \<Rightarrow> r
      | JSymbol \<Rightarrow> None)"

section \<open>Tasks and the store\<close>

text \<open>
  A task object has the five fields the source gives it. The two timestamps are kept as
  the time value of the \<open>Date\<close> (milliseconds since the epoch) that \<open>toISOString\<close>
  renders; the rendering has millisecond precision, so two timestamps are equal exactly
  when their time values are, and they are ordered as their time values are.
\<close>

record task =
  id_t :: string
  title :: string
  status :: string
  createdAt :: nat
  updatedAt :: nat

text \<open>
  Task objects live in a heap and are handled through references, as JavaScript objects
  are: a reference is the index of the object in \<open>heap\<close>, and an object literal or a
  spread copy allocates a new object at the end. The module variable \<open>tasks\<close> is the
  array of references to the stored objects. Objects are never reclaimed in the model.
\<close>

type_synonym ref = nat

record store =
  heap :: "task list"
  tasks :: "ref list"

definition emptyStore :: store where
  "emptyStore = \<lparr>heap = [], tasks = []\<rparr>"

definition alloc :: "task \<Rightarrow> store \<Rightarrow> ref \<times> store" where
  "alloc t st = (length (heap st), st\<lparr>heap := heap st @ [t]\<rparr>)"

text \<open>
  The errors of the task manager. The source throws a plain \<open>Error\<close> with a message;
  the constructor records which of the three throw sites raised it. \<open>TypeError\<close> is the
  error that the language raises when a value cannot be converted to a string.
\<close>

datatype error = InvalidTitle string | InvalidStatus string | NotFound string | TypeError

text \<open>
  \<open>generateId\<close> reads the clock (\<open>Date.now()\<close>, here \<open>now\<close>) and draws a random
  number whose base-36 rendering, cut by \<open>substr(2, 9)\<close>, is the suffix \<open>rnd\<close>. Both are
  inputs of the model.
\<close>

definition generateId :: "nat \<Rightarrow> string \<Rightarrow> string" where
  "generateId now rnd = ''task-'' @ toString now @ ''-'' @ rnd"

text \<open>
  \<open>createTask\<close> reads the clock three times: in \<open>generateId\<close> (\<open>now\<close>), for
  \<open>createdAt\<close> (\<open>nowC\<close>) and for \<open>updatedAt\<close> (\<open>nowU\<close>), in this order. The guard
  \<open>!title || typeof title !== 'string' || title.trim() === ''\<close> rejects every value
  that is not a string, the empty string, and a string that is empty after trimming; it
  has no test of the length. The new object is pushed onto the array and the same object
  is returned. The log lines of the task manager are not kept in the model; their
  messages interpolate ids, titles, stored statuses and counts, which always convert to
  strings, except for the line in \<open>updateTaskStatus\<close> that interpolates the rejected
  status argument.
\<close>

definition createTask ::
  "nat \<Rightarrow> string \<Rightarrow> nat \<Rightarrow> nat \<Rightarrow> jsval \<Rightarrow> store \<Rightarrow> (error + ref) \<times> store" where
  "createTask now rnd nowC nowU title_arg st =
     (case title_arg of
        JStr s \<Rightarrow>
          if s = [] \<or> trim s = [] then
            (Inl (InvalidTitle ''Task title is required and must be a non-empty string''), st)
          else
            let (r, st1) = alloc \<lparr>id_t = generateId now rnd, title = trim s,
                                  status = ''pending'', createdAt = nowC, updatedAt = nowU\<rparr> st
            in (Inr r, st1\<lparr>tasks := tasks st1 @ [r]\<rparr>)
      | _ \<Rightarrow> (Inl (InvalidTitle ''Task title is required and must be a non-empty string''), st))"

text \<open>\<open>getTasks\<close> returns a new array of spread copies: one new object per stored task.\<close>

definition getTasks :: "store \<Rightarrow> ref list \<times> store" where
  "getTasks st =
     ([length (heap st) ..< length (heap st) + length (tasks st)],
      st\<lparr>heap := heap st @ map (\<lambda>r. heap st ! r) (tasks st)\<rparr>)"

text \<open>\<open>getTaskById\<close> returns the stored object found first, or \<open>null\<close> (\<open>None\<close>).\<close>

definition getTaskById :: "string \<Rightarrow> store \<Rightarrow> ref option" where
  "getTaskById taskId st = find (\<lambda>r. id_t (heap st ! r) = taskId) (tasks st)"

definition validStatuses :: "string list" where
  "validStatuses = [''pending'', ''completed'']"

text \<open>\<open>Array.prototype.includes\<close> on an array of strings: only an equal string is found.\<close>

definition includes_js :: "string list \<Rightarrow> jsval \<Rightarrow> bool" where
  "includes_js xs v = (case v of JStr s \<Rightarrow> s \<in> set xs | _ \<Rightarrow> False)"

text \<open>
  \<open>updateTaskStatus\<close> tests the status, then looks the task up, then assigns to the two
  fields of the stored object and returns that object. When the status is rejected, the
  source first builds the log message \<open>`Invalid status: ${status}`\<close> and only then
  throws the error that lists the allowed values: if the status has no conversion to a
  string, building the message raises a \<open>TypeError\<close> and the second error is never
  thrown. After the first test has passed the status is a string, so the last case of
  the definition never occurs.
\<close>

definition updateTaskStatus ::
  "nat \<Rightarrow> string \<Rightarrow> jsval \<Rightarrow> store \<Rightarrow> (error + ref) \<times> store" where
  "updateTaskStatus now taskId status_arg st =
     (if \<not> includes_js validStatuses status_arg then
        (case templateString status_arg of
           None \<Rightarrow> (Inl TypeError, st)
         | Some m \<Rightarrow>
             (Inl (InvalidStatus (''Status must be one of: '' @ join '', '' validStatuses)), st))
      else
        case find (\<lambda>r. id_t (heap st ! r) = taskId) (tasks st) of
          None \<Rightarrow> (Inl (NotFound (''Task with ID '' @ taskId @ '' not found'')), st)
        | Some r \<Rightarrow>
            (case status_arg of
               JStr s \<Rightarrow>
                 (Inr r, st\<lparr>heap := (heap st)[r := (heap st ! r)\<lparr>status := s, updatedAt := now\<rparr>]\<rparr>)
             | _ \<Rightarrow> (Inl (InvalidStatus (''Status must be one of: '' @ join '', '' validStatuses)), st)))"

text \<open>\<open>Array.prototype.findIndex\<close>; the result \<open>-1\<close> of the source is \<open>None\<close>.\<close>

fun findIndex :: "('a \<Rightarrow> bool) \<Rightarrow> 'a list \<Rightarrow> nat option" where
  "findIndex P [] = None"
| "findIndex P (x # xs) =
     (if P x then Some 0 else map_option Suc (findIndex P xs))"

text \<open>\<open>deleteTask\<close> splices one element out of the array and returns the removed object.\<close>

definition deleteTask :: "string \<Rightarrow> store \<Rightarrow> (error + ref) \<times> store" where
  "deleteTask taskId st =
     (case findIndex (\<lambda>r. id_t (heap st ! r) = taskId) (tasks st) of
        None \<Rightarrow> (Inl (NotFound (''Task with ID '' @ taskId @ '' not found'')), st)
      | Some i \<Rightarrow>
          (Inr (tasks st ! i), st\<lparr>tasks := take i (tasks st) @ drop (Suc i) (tasks st)\<rparr>))"

definition clearTasks :: "store \<Rightarrow> store" where
  "clearTasks st = st\<lparr>tasks := []\<rparr>"

definition getTaskCount :: "store \<Rightarrow> nat" where
  "getTaskCount st = length (tasks st)"

definition getCompletedTaskCount :: "store \<Rightarrow> nat" where
  "getCompletedTaskCount st =
     length (filter (\<lambda>r. status (heap st ! r) = ''completed'') (tasks st))"

text \<open>
  The content of the store: the stored task objects, in the order of the array. It is
  what \<open>getTasks\<close> copies and what every query reads.
\<close>

definition contents :: "store \<Rightarrow> task list" where
  "contents st = map (\<lambda>r. heap st ! r) (tasks st)"

text \<open>
  References held in the array are distinct and point into the heap. Every operation of
  the module keeps this, starting from the empty store.
\<close>

definition wf_store :: "store \<Rightarrow> bool" where
  "wf_store st = (distinct (tasks st) \<and> list_all (\<lambda>r. r < length (heap st)) (tasks st))"

section \<open>Callers holding a returned object\<close>

text \<open>
  A caller that holds a reference can assign to the fields of the object behind it.
  \<open>assign r f\<close> is such an assignment: \<open>f\<close> changes the fields, for instance
  \<open>\<lambda>t. t\<lparr>title := ''x''\<rparr>\<close> for \<open>task.title = 'x'\<close>.
\<close>

definition assign :: "ref \<Rightarrow> (task \<Rightarrow> task) \<Rightarrow> store \<Rightarrow> store" where
  "assign r f st = st\<lparr>heap := (heap st)[r := f (heap st ! r)]\<rparr>"

text \<open>A store holding one task, created at clock reading 1700000000000.\<close>

definition exampleStore :: store where
  "exampleStore =
     snd (createTask 1700000000000 ''k3j9x2a1b'' 1700000000000 1700000000000
            (JStr ''Original Task'') emptyStore)"

text \<open>
  The store after two \<open>createTask\<close> calls in the same millisecond that drew the same
  random suffix.
\<close>

definition collidedStore :: store where
  "collidedStore =
     snd (createTask 1000 ''k3j9x2a1b'' 1000 1000 (JStr ''Task 2'')
            (snd (createTask 1000 ''k3j9x2a1b'' 1000 1000 (JStr ''Task 1'') emptyStore)))"

text \<open>
  A run of successive \<open>createTask\<close> calls, each with its clock readings, its random
  suffix and its title; the result lists the \<open>id\<close> of every task returned.
\<close>

fun createIds :: "(nat \<times> string \<times> nat \<times> nat \<times> jsval) list \<Rightarrow> store \<Rightarrow> string list" where
  "createIds [] st = []"
| "createIds ((now, rnd, nowC, nowU, title_arg) # cs) st =
     (case createTask now rnd nowC nowU title_arg st of
        (Inr r, st1) \<Rightarrow> id_t (heap st1 ! r) # createIds cs st1
      | (Inl e, st1) \<Rightarrow> createIds cs st1)"

definition ids_unique :: "store \<Rightarrow> bool" where
  "ids_unique st = distinct (map id_t (contents st))"

section \<open>Title validation of the validation module\<close>

definition truthy :: "jsval \<Rightarrow> bool" where
  "truthy v =
     (case v of
        JUndefined \<Rightarrow> False | JNull \<Rightarrow> False | JBool b \<Rightarrow> b
      | JNum n \<Rightarrow> n \<noteq> 0 | JStr s \<Rightarrow> s \<noteq> [] | JObject r \<Rightarrow> True
      | JSymbol \<Rightarrow> True)"

text \<open>The result object \<open>{ valid, error }\<close> is the pair of its two fields.\<close>

definition validateTaskTitle :: "jsval \<Rightarrow> bool \<times> string option" where
  "validateTaskTitle title_arg =
     (if \<not> truthy title_arg then (False, Some ''Task title is required'')
      else case title_arg of
        JStr s \<Rightarrow>
          (let trimmed = trim s
           in if length trimmed = 0 then (False, Some ''Task title cannot be empty'')
              else if length trimmed > 200 then
                (False, Some ''Task title must be 200 characters or less'')
              else (True, None))
      | _ \<Rightarrow> (False, Some ''Task title must be a string''))"

section \<open>Double-precision arithmetic of the completion rate\<close>

text \<open>
  The completion rate is computed on JavaScript numbers, which are IEEE 754 binary64
  values. A positive finite double is a pair \<open>(m, e)\<close> of integers that stands for
  \<open>m * 2 ^ e\<close>, with a significand \<open>m\<close> of 53 bits; \<open>(0, 0)\<close> is zero. The model
  covers the normal range, which the quotients and products of array lengths never leave.
\<close>

type_synonym double = "int \<times> int"

definition dval :: "double \<Rightarrow> rat" where
  "dval x = of_int (fst x) * 2 powi (snd x)"

text \<open>The position of the leading bit of a positive integer.\<close>

function ilog2 :: "int \<Rightarrow> nat" where
  "ilog2 n = (if n < 2 then 0 else Suc (ilog2 (n div 2)))"
  by pat_completeness auto
termination
  by (relation "measure nat") auto

declare ilog2.simps [simp del]

text \<open>\<open>scale n d e\<close> is a fraction equal to \<open>(n / d) / 2 ^ e\<close>.\<close>

definition scale :: "int \<Rightarrow> int \<Rightarrow> int \<Rightarrow> int \<times> int" where
  "scale n d e = (if 0 \<le> e then (n, d * 2 ^ nat e) else (n * 2 ^ nat (- e), d))"

text \<open>The binary exponent of \<open>n / d\<close>: the \<open>e\<close> with \<open>2 ^ e \<le> n / d < 2 ^ (e + 1)\<close>.\<close>

definition exponent :: "int \<Rightarrow> int \<Rightarrow> int" where
  "exponent n d =
     (let e0 = int (ilog2 n) - int (ilog2 d);
          (n', d') = scale n d e0
      in if d' \<le> n' then e0 else e0 - 1)"

text \<open>The integer nearest to \<open>n / d\<close>, a tie going to the even one.\<close>

definition roundQuot :: "int \<Rightarrow> int \<Rightarrow> int" where
  "roundQuot n d =
     (let q = n div d; r = n mod d
      in if 2 * r < d then q
         else if d < 2 * r then q + 1
         else if even q then q else q + 1)"

text \<open>The double nearest to the fraction \<open>n / d\<close> (round to nearest, ties to even).\<close>

definition fl :: "int \<Rightarrow> int \<Rightarrow> double" where
  "fl n d =
     (if n = 0 then (0, 0)
      else let e = exponent n d - 52; (n', d') = scale n d e
           in (roundQuot n' d', e))"

text \<open>
  The quotient \<open>a / b\<close> of two array lengths, the product \<open>x * k\<close> of a double with
  an integer constant \<open>k\<close>, and \<open>Math.round\<close>, which is exact: the nearest integer, a tie
  going up.
\<close>

definition divide_js :: "nat \<Rightarrow> nat \<Rightarrow> double" where
  "divide_js a b = fl (int a) (int b)"

definition times_js :: "double \<Rightarrow> nat \<Rightarrow> double" where
  "times_js x k =
     (case x of (m, e) \<Rightarrow>
        if 0 \<le> e then fl (m * int k * 2 ^ nat e) 1 else fl (m * int k) (2 ^ nat (- e)))"

definition mathRound :: "double \<Rightarrow> int" where
  "mathRound x =
     (case x of (m, e) \<Rightarrow>
        if 0 \<le> e then m * 2 ^ nat e
        else (2 * m + 2 ^ nat (- e)) div 2 ^ nat (1 - e))"

text \<open>\<open>Math.ceil\<close>.\<close>

definition mathCeil :: "double \<Rightarrow> int" where
  "mathCeil x =
     (case x of (m, e) \<Rightarrow>
        if 0 \<le> e then m * 2 ^ nat e else - ((- m) div 2 ^ nat (- e)))"

section \<open>Statistics\<close>

text \<open>
  The expression \<open>total > 0 ? Math.round((completed / total) * 100) : 0\<close>, which the
  statistics route and \<open>getTaskStatistics\<close> share.
\<close>

definition completionRate :: "nat \<Rightarrow> nat \<Rightarrow> int" where
  "completionRate completed_n total_n =
     (if total_n > 0 then mathRound (times_js (divide_js completed_n total_n) 100) else 0)"

record stats_data =
  totalTasks :: nat
  completedTasks :: nat
  pendingTasks :: int
  rate :: int

text \<open>The \<open>data\<close> object of \<open>GET /api/stats\<close>; \<open>rate\<close> is its field \<open>completionRate\<close>.\<close>

definition statsRoute :: "store \<Rightarrow> stats_data" where
  "statsRoute st =
     (let total_n = getTaskCount st;
          completed_n = getCompletedTaskCount st;
          pending_n = int total_n - int completed_n
      in \<lparr>totalTasks = total_n, completedTasks = completed_n, pendingTasks = pending_n,
          rate = completionRate completed_n total_n\<rparr>)"

record statistics =
  total_s :: nat
  pending_s :: nat
  completed_s :: nat
  completionRate_s :: int

text \<open>
  \<open>getTaskStatistics\<close> of the task utilities, on an array of tasks (the branch for an
  argument that is not an array returns zeros and is left out).
\<close>

definition getTaskStatistics :: "task list \<Rightarrow> statistics" where
  "getTaskStatistics ts =
     (let total_n = length ts;
          pending_n = length (filter (\<lambda>t. status t = ''pending'') ts);
          completed_n = length (filter (\<lambda>t. status t = ''completed'') ts)
      in \<lparr>total_s = total_n, pending_s = pending_n, completed_s = completed_n,
          completionRate_s = completionRate completed_n total_n\<rparr>)"

text \<open>
  A store of \<open>n\<close> tasks, created one per millisecond, of which the first \<open>k\<close> have
  been completed.
\<close>

definition sampleStore :: "nat \<Rightarrow> nat \<Rightarrow> store" where
  "sampleStore k n =
     \<lparr>heap = map (\<lambda>i. \<lparr>id_t = generateId i ''k3j9x2a1b'', title = ''Task'',
                          status = (if i < k then ''completed'' else ''pending''),
                          createdAt = i, updatedAt = i\<rparr>) [0..<n],
      tasks = [0..<n]\<rparr>"

text \<open>The exact quotient of two integers.\<close>

definition quot :: "int \<Rightarrow> int \<Rightarrow> rat" where
  "quot n d = of_int n / of_int d"

text \<open>
  Rounding half up on exact rationals, as the specification words it: the integer
  nearest to \<open>x\<close>, a tie going up.
\<close>

definition roundHalfUp :: "rat \<Rightarrow> int" where
  "roundHalfUp x = \<lfloor>x + 1 / 2\<rfloor>"

section \<open>Pagination\<close>

text \<open>\<open>Array.prototype.slice\<close> with two integer arguments; a negative index counts from the end.\<close>

definition slice :: "'a list \<Rightarrow> int \<Rightarrow> int \<Rightarrow> 'a list" where
  "slice xs start_i end_i =
     (let len = int (length xs);
          k = (if start_i < 0 then max (len + start_i) 0 else min start_i len);
          final = (if end_i < 0 then max (len + end_i) 0 else min end_i len)
      in take (nat (final - k)) (drop (nat k) xs))"

record 'a page_result =
  tasks_p :: "'a list"
  page :: int
  pageSize :: int
  totalPages :: int
  totalItems :: int
  hasNextPage :: bool
  hasPrevPage :: bool

text \<open>
  \<open>paginateTasks\<close> on an array, with an integer page number and an integer page size
  (the default values of the two parameters and the branch for an argument that is not
  an array are left out). \<open>Math.ceil(totalItems / pageSize)\<close> is written with integer
  division: the double quotient of an array length by a positive integer has the ceiling
  of the exact quotient, which \<open>double_quotient_ceiling\<close> proves below. For the page size
  zero the quotient is \<open>Infinity\<close> or \<open>NaN\<close>: that case is outside the model
  (\<open>None\<close>). \<open>totalPages || 1\<close> replaces a zero by one.
\<close>

definition paginateTasks :: "'a list \<Rightarrow> int \<Rightarrow> int \<Rightarrow> 'a page_result option" where
  "paginateTasks ts page_arg pageSize_arg =
     (if pageSize_arg = 0 then None
      else
        let totalItems_n = int (length ts);
            totalPages_n = - ((- totalItems_n) div pageSize_arg);
            currentPage = max 1 (min page_arg (if totalPages_n = 0 then 1 else totalPages_n));
            startIndex = (currentPage - 1) * pageSize_arg;
            endIndex = startIndex + pageSize_arg;
            paginatedTasks = slice ts startIndex endIndex
        in Some \<lparr>tasks_p = paginatedTasks, page = currentPage, pageSize = pageSize_arg,
                  totalPages = totalPages_n, totalItems = totalItems_n,
                  hasNextPage = (currentPage < totalPages_n),
                  hasPrevPage = (currentPage > 1)\<rparr>)"

section \<open>Strings and identifiers\<close>


lemma dropWhile_hd: "xs \<noteq> [] \<Longrightarrow> \<not> P (hd xs) \<Longrightarrow> dropWhile P xs = xs"
  by (cases xs) auto

lemma trim_unchanged:
  "s \<noteq> [] \<Longrightarrow> \<not> isWhiteSpace (hd s) \<Longrightarrow> \<not> isWhiteSpace (last s) \<Longrightarrow> trim s = s"
  by (simp add: trim_def dropWhile_hd hd_rev)

lemma trim_nonempty: "trim s \<noteq> [] \<Longrightarrow> s \<noteq> []"
  by (auto simp: trim_def)

lemma digitChar_isDigit: "d < 10 \<Longrightarrow> isDigit (digitChar d)"
  unfolding isDigit_def digitChar_def by (rule nth_mem) simp

lemma digitChar_inj: "d < 10 \<Longrightarrow> d' < 10 \<Longrightarrow> digitChar d = digitChar d' \<Longrightarrow> d = d'"
proof -
  assume a: "d < 10" "d' < 10" "digitChar d = digitChar d'"
  have "distinct ''0123456789''" by simp
  with a show ?thesis
    unfolding digitChar_def by (simp add: nth_eq_iff_index_eq)
qed

lemma toString_digits: "list_all isDigit (toString n)"
proof (induction n rule: toString.induct)
  case (1 n)
  show ?case
  proof (cases "n < 10")
    case True
    then show ?thesis by (simp add: toString.simps [of n] digitChar_isDigit)
  next
    case False
    with 1 show ?thesis by (simp add: toString.simps [of n] digitChar_isDigit)
  qed
qed

lemma toString_nonempty: "toString n \<noteq> []"
  by (subst toString.simps) simp

lemma toString_length_one: "length (toString n) = Suc 0 \<longleftrightarrow> n < 10"
  by (subst toString.simps) (simp add: toString_nonempty Suc_le_eq)

lemma toString_inj: "toString m = toString n \<Longrightarrow> m = n"
proof (induction m arbitrary: n rule: toString.induct)
  case (1 m)
  show ?case
  proof (cases "m < 10")
    case True
    then have "length (toString n) = Suc 0"
      using "1.prems" toString_length_one [of m] by simp
    then have n: "n < 10" by (simp add: toString_length_one)
    from True n "1.prems" show ?thesis
      by (simp add: toString.simps [of m] toString.simps [of n] digitChar_inj)
  next
    case False
    then have "length (toString n) \<noteq> Suc 0"
      using "1.prems" toString_length_one [of m] by simp
    then have n: "\<not> n < 10" by (simp add: toString_length_one)
    from False n "1.prems"
    have eq: "toString (m div 10) = toString (n div 10)" "digitChar (m mod 10) = digitChar (n mod 10)"
      by (simp_all add: toString.simps [of m] toString.simps [of n])
    from "1.IH" [OF False eq(1)] have "m div 10 = n div 10" .
    moreover from eq(2) have "m mod 10 = n mod 10" by (simp add: digitChar_inj)
    ultimately show ?thesis by (metis div_mult_mod_eq)
  qed
qed

lemma split_at_separator:
  assumes "list_all P xs" "list_all P ys" "\<not> P c" "xs @ c # r = ys @ c # r'"
  shows "xs = ys \<and> r = r'"
proof -
  have "takeWhile P (xs @ c # r) = xs" "takeWhile P (ys @ c # r') = ys"
    using assms(1-3) by (simp_all add: takeWhile_tail list_all_iff)
  with assms(4) have "xs = ys" by simp
  with assms(4) show ?thesis by simp
qed

lemma generateId_inj:
  "generateId now rnd = generateId now' rnd' \<longleftrightarrow> now = now' \<and> rnd = rnd'"
proof
  assume "generateId now rnd = generateId now' rnd'"
  then have "toString now @ CHR ''-'' # rnd = toString now' @ CHR ''-'' # rnd'"
    by (simp add: generateId_def)
  then have "toString now = toString now' \<and> rnd = rnd'"
    by (rule split_at_separator [OF toString_digits toString_digits, rotated]) (simp add: isDigit_def)
  then show "now = now' \<and> rnd = rnd'" by (simp add: toString_inj)
qed simp


section \<open>The store operations\<close>

lemma wf_store_empty: "wf_store emptyStore"
  by (simp add: wf_store_def emptyStore_def)

lemma createTask_ok:
  "trim s \<noteq> [] \<Longrightarrow>
   createTask now rnd nowC nowU (JStr s) st =
     (Inr (length (heap st)),
      \<lparr>heap = heap st @ [\<lparr>id_t = generateId now rnd, title = trim s, status = ''pending'',
                           createdAt = nowC, updatedAt = nowU\<rparr>],
       tasks = tasks st @ [length (heap st)]\<rparr>)"
  by (auto simp: createTask_def alloc_def trim_def)

lemma createTask_rejected:
  "\<not> (\<exists>s. v = JStr s \<and> trim s \<noteq> []) \<Longrightarrow>
   createTask now rnd nowC nowU v st =
     (Inl (InvalidTitle ''Task title is required and must be a non-empty string''), st)"
  by (auto simp: createTask_def trim_def split: jsval.splits)

lemma heap_append_stored:
  "wf_store st \<Longrightarrow>
   map (\<lambda>r. (heap st @ xs) ! r) (tasks st) = map (\<lambda>r. heap st ! r) (tasks st)"
  by (auto simp: wf_store_def list_all_iff nth_append)

lemma contents_createTask:
  assumes "wf_store st" "trim s \<noteq> []"
  shows "contents (snd (createTask now rnd nowC nowU (JStr s) st)) =
         contents st @ [\<lparr>id_t = generateId now rnd, title = trim s, status = ''pending'',
                           createdAt = nowC, updatedAt = nowU\<rparr>]"
  using assms by (simp add: createTask_ok contents_def heap_append_stored)

lemma wf_store_createTask:
  assumes "wf_store st"
  shows "wf_store (snd (createTask now rnd nowC nowU v st))"
proof (cases "\<exists>s. v = JStr s \<and> trim s \<noteq> []")
  case True
  then obtain s where "v = JStr s" "trim s \<noteq> []" by blast
  with assms show ?thesis
    by (auto simp: createTask_ok wf_store_def list_all_iff)
next
  case False
  with assms show ?thesis by (simp add: createTask_rejected)
qed

lemma find_stored:
  "wf_store st \<Longrightarrow> find P (tasks st) = Some r \<Longrightarrow> r \<in> set (tasks st) \<and> r < length (heap st)"
  by (auto simp: wf_store_def list_all_iff find_Some_iff)

lemma updateTaskStatus_ok:
  assumes "getTaskById taskId st = Some r" "s \<in> set validStatuses"
  shows "updateTaskStatus now taskId (JStr s) st =
         (Inr r, st\<lparr>heap := (heap st)[r := (heap st ! r)\<lparr>status := s, updatedAt := now\<rparr>]\<rparr>)"
  using assms by (simp add: updateTaskStatus_def getTaskById_def includes_js_def)

lemma id_t_update:
  "id_t (((heap st)[r := (heap st ! r)\<lparr>status := s, updatedAt := now\<rparr>]) ! r') = id_t (heap st ! r')"
  by (cases "r' = r"; cases "r < length (heap st)") (simp_all add: list_update_beyond)

lemma getTaskById_update:
  "getTaskById taskId (st\<lparr>heap := (heap st)[r := (heap st ! r)\<lparr>status := s, updatedAt := now\<rparr>]\<rparr>)
   = getTaskById taskId st"
  by (simp add: getTaskById_def id_t_update)

lemma wf_store_updateTaskStatus:
  "wf_store st \<Longrightarrow> wf_store (snd (updateTaskStatus now taskId v st))"
  by (auto simp: updateTaskStatus_def wf_store_def split: option.splits jsval.splits)

lemma findIndex_None: "findIndex P xs = None \<longleftrightarrow> (\<forall>x\<in>set xs. \<not> P x)"
  by (induction xs) auto

lemma findIndex_Some:
  "findIndex P xs = Some i \<Longrightarrow> i < length xs \<and> P (xs ! i) \<and> (\<forall>j<i. \<not> P (xs ! j))"
proof (induction xs arbitrary: i)
  case Nil
  then show ?case by simp
next
  case (Cons x xs)
  show ?case
  proof (cases "P x")
    case True
    with Cons.prems show ?thesis by simp
  next
    case False
    with Cons.prems obtain k where k: "findIndex P xs = Some k" "i = Suc k" by auto
    from Cons.IH [OF k(1)] False k(2) show ?thesis
      by (auto simp: nth_Cons split: nat.splits)
  qed
qed

lemma findIndex_find:
  "findIndex P xs = Some i \<Longrightarrow> find P xs = Some (xs ! i)"
  by (induction xs arbitrary: i) (auto split: if_splits)

lemma find_None_findIndex: "find P xs = None \<Longrightarrow> findIndex P xs = None"
  by (simp add: findIndex_None find_None_iff)

lemma find_findIndex:
  "find P xs = Some x \<Longrightarrow> \<exists>i. findIndex P xs = Some i \<and> xs ! i = x"
  by (induction xs) (auto split: if_splits)

lemma wf_store_deleteTask: "wf_store st \<Longrightarrow> wf_store (snd (deleteTask taskId st))"
proof -
  assume w: "wf_store st"
  have "distinct (take i xs @ drop (Suc i) xs)" if "distinct xs" for i and xs :: "nat list"
    using that
    by (metis distinct_take distinct_drop distinct_append set_take_disj_set_drop_if_distinct
        le_Suc_eq nat_le_linear)
  moreover have "set (take i xs @ drop (Suc i) xs) \<subseteq> set xs" for i and xs :: "nat list"
    by (auto dest: in_set_takeD in_set_dropD)
  ultimately show ?thesis using w
    by (auto simp: deleteTask_def wf_store_def list_all_iff split: option.splits
             dest: in_set_takeD in_set_dropD)
qed

lemma getTasks_contents:
  assumes "wf_store st"
  shows "contents (snd (getTasks st)) = contents st"
    and "wf_store (snd (getTasks st))"
  using assms by (auto simp: getTasks_def contents_def wf_store_def list_all_iff nth_append)

lemma getTasks_copies:
  assumes "wf_store st" "r \<in> set (fst (getTasks st))"
  shows "contents (assign r f (snd (getTasks st))) = contents st"
    and "r \<notin> set (tasks st)"
proof -
  from assms have r: "length (heap st) \<le> r" by (simp add: getTasks_def)
  with assms(1) show n: "r \<notin> set (tasks st)"
    by (auto simp: wf_store_def list_all_iff)
  have "map (\<lambda>x. ((heap (snd (getTasks st)))[r := t]) ! x) (tasks st)
        = map (\<lambda>x. heap (snd (getTasks st)) ! x) (tasks st)" for t
  proof (rule map_cong [OF refl])
    fix x assume "x \<in> set (tasks st)"
    with n have "r \<noteq> x" by auto
    then show "((heap (snd (getTasks st)))[r := t]) ! x = heap (snd (getTasks st)) ! x"
      by simp
  qed
  then show "contents (assign r f (snd (getTasks st))) = contents st"
    using getTasks_contents(1) [OF assms(1)] by (simp add: contents_def assign_def getTasks_def)
qed

lemma wf_store_clearTasks: "wf_store (clearTasks st)"
  by (simp add: wf_store_def clearTasks_def)

lemma wf_store_assign: "wf_store st \<Longrightarrow> wf_store (assign r f st)"
  by (simp add: wf_store_def assign_def)

section \<open>Status validation comes first\<close>

lemma join_validStatuses: "join '', '' validStatuses = ''pending, completed''"
  by (simp add: validStatuses_def)

lemma includes_validStatuses:
  "includes_js validStatuses v \<longleftrightarrow> v = JStr ''pending'' \<or> v = JStr ''completed''"
  by (cases v) (auto simp: includes_js_def validStatuses_def)

lemma exampleStore_eq:
  "exampleStore =
     \<lparr>heap = [\<lparr>id_t = ''task-1700000000000-k3j9x2a1b'', title = ''Original Task'',
                status = ''pending'', createdAt = 1700000000000, updatedAt = 1700000000000\<rparr>],
      tasks = [0]\<rparr>"
  by (simp add: exampleStore_def createTask_def alloc_def trim_def isWhiteSpace_def
        emptyStore_def generateId_def toString.simps digitChar_def)

lemma wf_store_example: "wf_store exampleStore"
  by (simp add: exampleStore_eq wf_store_def)

section \<open>Returned objects and the stored objects\<close>

text \<open>
  C1: every operation that returns a task should return an independent copy, so that an
  assignment to a field of the returned object leaves the store unchanged. Only
  \<open>getTasks\<close> copies. \<open>createTask\<close>, \<open>getTaskById\<close> and \<open>updateTaskStatus\<close>
  return the reference held in the array (here reference 0): after the caller assigns to
  the title of that object, the store lists the new title. An object returned by
  \<open>getTasks\<close> (reference 1) is a copy, and assigning to it leaves the content as it was.
\<close>

theorem returned_task_is_the_stored_object:
  "fst (createTask 1700000000000 ''k3j9x2a1b'' 1700000000000 1700000000000
          (JStr ''Original Task'') emptyStore) = Inr 0
   \<and> tasks exampleStore = [0]
   \<and> getTaskById ''task-1700000000000-k3j9x2a1b'' exampleStore = Some 0
   \<and> fst (updateTaskStatus 1700000000005 ''task-1700000000000-k3j9x2a1b''
             (JStr ''completed'') exampleStore) = Inr 0
   \<and> map title (contents exampleStore) = [''Original Task'']
   \<and> map title (contents (assign 0 (\<lambda>t. t\<lparr>title := ''Modified Task''\<rparr>) exampleStore))
       = [''Modified Task'']
   \<and> fst (getTasks exampleStore) = [1]
   \<and> contents (assign 1 (\<lambda>t. t\<lparr>title := ''Modified Task''\<rparr>) (snd (getTasks exampleStore)))
       = contents exampleStore"
  by (simp add: exampleStore_eq createTask_def alloc_def trim_def isWhiteSpace_def
        emptyStore_def getTaskById_def updateTaskStatus_def includes_js_def validStatuses_def
        contents_def assign_def getTasks_def)

section \<open>Titles longer than 200 characters\<close>

text \<open>
  C2: a title whose trimmed length exceeds 200 should be rejected by \<open>createTask\<close> with
  no task added. The guard of \<open>createTask\<close> has no length test: a title of 201
  characters, which \<open>validateTaskTitle\<close> rejects, is accepted and stored.
\<close>

theorem createTask_accepts_long_title:
  "length (trim (replicate 201 CHR ''a'')) = 201
   \<and> validateTaskTitle (JStr (replicate 201 CHR ''a''))
       = (False, Some ''Task title must be 200 characters or less'')
   \<and> fst (createTask now rnd nowC nowU (JStr (replicate 201 CHR ''a'')) emptyStore) = Inr 0
   \<and> getTaskCount (snd (createTask now rnd nowC nowU (JStr (replicate 201 CHR ''a'')) emptyStore))
       = getTaskCount emptyStore + 1"
proof -
  have t: "trim (replicate 201 CHR ''a'') = replicate 201 CHR ''a''"
    by (rule trim_unchanged) (simp_all add: isWhiteSpace_def)
  then have ne: "trim (replicate 201 CHR ''a'') \<noteq> []" by simp
  show ?thesis
    by (simp add: t createTask_ok [OF ne] validateTaskTitle_def truthy_def getTaskCount_def
          emptyStore_def)
qed

section \<open>Successful creation\<close>

text \<open>
  What \<open>createTask\<close> does on a string that is not empty after trimming: it returns the
  new object, whose fields are the id, the trimmed title, the status \<open>pending\<close> and the
  second and third clock reading of the call, and appends it to the collection, whose
  other tasks stay as they are.
\<close>

lemma createTask_success:
  assumes "wf_store st" and "trim s \<noteq> []"
  shows "fst (createTask now rnd nowC nowU (JStr s) st) = Inr (length (heap st))
     \<and> heap (snd (createTask now rnd nowC nowU (JStr s) st)) ! length (heap st) =
         \<lparr>id_t = generateId now rnd, title = trim s, status = ''pending'',
          createdAt = nowC, updatedAt = nowU\<rparr>
     \<and> contents (snd (createTask now rnd nowC nowU (JStr s) st)) =
         contents st @ [\<lparr>id_t = generateId now rnd, title = trim s, status = ''pending'',
                          createdAt = nowC, updatedAt = nowU\<rparr>]
     \<and> getTaskCount (snd (createTask now rnd nowC nowU (JStr s) st)) = getTaskCount st + 1
     \<and> wf_store (snd (createTask now rnd nowC nowU (JStr s) st))"
proof -
  have "wf_store (snd (createTask now rnd nowC nowU (JStr s) st))"
    using assms(1) by (rule wf_store_createTask)
  moreover have "contents (snd (createTask now rnd nowC nowU (JStr s) st)) =
         contents st @ [\<lparr>id_t = generateId now rnd, title = trim s, status = ''pending'',
                          createdAt = nowC, updatedAt = nowU\<rparr>]"
    using assms by (rule contents_createTask)
  moreover have "fst (createTask now rnd nowC nowU (JStr s) st) = Inr (length (heap st))"
    "heap (snd (createTask now rnd nowC nowU (JStr s) st)) ! length (heap st) =
         \<lparr>id_t = generateId now rnd, title = trim s, status = ''pending'',
          createdAt = nowC, updatedAt = nowU\<rparr>"
    "getTaskCount (snd (createTask now rnd nowC nowU (JStr s) st)) = getTaskCount st + 1"
    using assms(2) by (simp_all add: createTask_ok getTaskCount_def)
  ultimately show ?thesis by blast
qed

text \<open>
  C3: for every valid title \<open>create\<close> should succeed and return a task with status
  \<open>pending\<close>, the trimmed title and \<open>createdAt\<close> equal to \<open>updatedAt\<close>, appended at
  the end of the collection. \<open>createTask\<close> reads the clock once for \<open>createdAt\<close> and
  once more for \<open>updatedAt\<close>. For the valid title \<open>Buy groceries\<close>, with the clock at
  1000 at the first of the two readings and at 1001 at the second, the call succeeds and
  appends a pending task with that title, but its two timestamps differ.
\<close>

theorem createTask_timestamps_differ:
  "length (trim ''Buy groceries'') \<le> 200
   \<and> fst (createTask 1000 ''k3j9x2a1b'' 1000 1001 (JStr ''Buy groceries'') emptyStore) = Inr 0
   \<and> createdAt (heap (snd (createTask 1000 ''k3j9x2a1b'' 1000 1001
                              (JStr ''Buy groceries'') emptyStore)) ! 0)
       \<noteq> updatedAt (heap (snd (createTask 1000 ''k3j9x2a1b'' 1000 1001
                                 (JStr ''Buy groceries'') emptyStore)) ! 0)
   \<and> contents (snd (createTask 1000 ''k3j9x2a1b'' 1000 1001 (JStr ''Buy groceries'') emptyStore))
       = [\<lparr>id_t = ''task-1000-k3j9x2a1b'', title = ''Buy groceries'', status = ''pending'',
           createdAt = 1000, updatedAt = 1001\<rparr>]"
  by (simp add: createTask_def alloc_def trim_def isWhiteSpace_def emptyStore_def contents_def
        generateId_def toString.simps digitChar_def)

section \<open>Status updates\<close>

lemma updated_object:
  assumes "wf_store st" "getTaskById taskId st = Some r"
  shows "r < length (heap st)"
  using assms find_stored [of st _ r] by (simp add: getTaskById_def)

text \<open>
  \<open>updateTaskStatus\<close> stores the reading of the wall clock and compares it with
  nothing. On the store with one task, an update to \<open>completed\<close> at clock reading
  1700000000009 followed by an update to \<open>pending\<close> at clock reading 1700000000003 (the
  clock was set back in between) both succeed, and \<open>updatedAt\<close> decreases across the two
  calls.
\<close>

theorem updatedAt_decreases_with_the_clock:
  "getTaskById ''task-1700000000000-k3j9x2a1b'' exampleStore = Some 0
   \<and> fst (updateTaskStatus 1700000000009 ''task-1700000000000-k3j9x2a1b'' (JStr ''completed'')
          exampleStore) = Inr 0
   \<and> fst (updateTaskStatus 1700000000003 ''task-1700000000000-k3j9x2a1b'' (JStr ''pending'')
          (snd (updateTaskStatus 1700000000009 ''task-1700000000000-k3j9x2a1b''
                  (JStr ''completed'') exampleStore))) = Inr 0
   \<and> updatedAt (heap (snd (updateTaskStatus 1700000000003 ''task-1700000000000-k3j9x2a1b''
          (JStr ''pending'')
          (snd (updateTaskStatus 1700000000009 ''task-1700000000000-k3j9x2a1b''
                  (JStr ''completed'') exampleStore)))) ! 0)
       < updatedAt (heap (snd (updateTaskStatus 1700000000009 ''task-1700000000000-k3j9x2a1b''
                  (JStr ''completed'') exampleStore)) ! 0)"
  by (simp add: exampleStore_eq getTaskById_def updateTaskStatus_def includes_js_def
        validStatuses_def)

text \<open>
  C4, amended: for a task id present in the store (\<open>getTaskById\<close> finds the stored
  object \<open>r\<close>), \<open>updateTaskStatus\<close> to \<open>completed\<close> at clock reading \<open>n1\<close> and then
  to \<open>pending\<close> at clock reading \<open>n2\<close> both succeed on that object and leave it with
  status \<open>pending\<close> and with its id, title and \<open>createdAt\<close> as before; \<open>updatedAt\<close>
  is \<open>n1\<close> after the first call and \<open>n2\<close> after the second, so across the two calls
  it does not decrease exactly when the clock reading does not. An update to the status
  the task already has succeeds as well and sets \<open>updatedAt\<close> to the clock reading of
  the call.
\<close>

theorem updateTaskStatus_round_trip:
  assumes "wf_store st" and "getTaskById taskId st = Some r"
  shows
    "(let res1 = updateTaskStatus n1 taskId (JStr ''completed'') st;
          res2 = updateTaskStatus n2 taskId (JStr ''pending'') (snd res1);
          t0 = heap st ! r; t1 = heap (snd res1) ! r; t2 = heap (snd res2) ! r
      in fst res1 = Inr r \<and> fst res2 = Inr r
         \<and> getTaskById taskId (snd res2) = Some r
         \<and> status t1 = ''completed'' \<and> status t2 = ''pending''
         \<and> id_t t2 = id_t t0 \<and> title t2 = title t0 \<and> createdAt t2 = createdAt t0
         \<and> updatedAt t1 = n1 \<and> updatedAt t2 = n2
         \<and> (updatedAt t1 \<le> updatedAt t2) = (n1 \<le> n2))
     \<and> (\<forall>s \<in> set validStatuses. status (heap st ! r) = s \<longrightarrow>
          (let res = updateTaskStatus n1 taskId (JStr s) st
           in fst res = Inr r \<and> status (heap (snd res) ! r) = s
              \<and> updatedAt (heap (snd res) ! r) = n1))"
proof -
  have r: "r < length (heap st)" using assms by (rule updated_object)
  define st1 where "st1 = st\<lparr>heap := (heap st)[r := (heap st ! r)\<lparr>status := ''completed'', updatedAt := n1\<rparr>]\<rparr>"
  have u1: "updateTaskStatus n1 taskId (JStr ''completed'') st = (Inr r, st1)"
    using assms(2) by (simp add: updateTaskStatus_ok st1_def validStatuses_def)
  have g1: "getTaskById taskId st1 = Some r"
    using assms(2) by (simp add: st1_def getTaskById_update)
  define st2 where "st2 = st1\<lparr>heap := (heap st1)[r := (heap st1 ! r)\<lparr>status := ''pending'', updatedAt := n2\<rparr>]\<rparr>"
  have u2: "updateTaskStatus n2 taskId (JStr ''pending'') st1 = (Inr r, st2)"
    using g1 by (simp add: updateTaskStatus_ok st2_def validStatuses_def)
  have g2: "getTaskById taskId st2 = Some r"
    using g1 by (simp add: st2_def getTaskById_update)
  have h1: "heap st1 ! r = (heap st ! r)\<lparr>status := ''completed'', updatedAt := n1\<rparr>"
    using r by (simp add: st1_def)
  have r1: "r < length (heap st1)" using r by (simp add: st1_def)
  have h2: "heap st2 ! r = (heap st1 ! r)\<lparr>status := ''pending'', updatedAt := n2\<rparr>"
    using r1 by (simp add: st2_def)
  have first: "(let res1 = updateTaskStatus n1 taskId (JStr ''completed'') st;
          res2 = updateTaskStatus n2 taskId (JStr ''pending'') (snd res1);
          t0 = heap st ! r; t1 = heap (snd res1) ! r; t2 = heap (snd res2) ! r
      in fst res1 = Inr r \<and> fst res2 = Inr r
         \<and> getTaskById taskId (snd res2) = Some r
         \<and> status t1 = ''completed'' \<and> status t2 = ''pending''
         \<and> id_t t2 = id_t t0 \<and> title t2 = title t0 \<and> createdAt t2 = createdAt t0
         \<and> updatedAt t1 = n1 \<and> updatedAt t2 = n2
         \<and> (updatedAt t1 \<le> updatedAt t2) = (n1 \<le> n2))"
    by (simp add: u1 u2 g2 h1 h2 Let_def)
  have second: "\<forall>s \<in> set validStatuses. status (heap st ! r) = s \<longrightarrow>
          (let res = updateTaskStatus n1 taskId (JStr s) st
           in fst res = Inr r \<and> status (heap (snd res) ! r) = s
              \<and> updatedAt (heap (snd res) ! r) = n1)"
    using r assms(2) by (simp add: updateTaskStatus_ok Let_def)
  from first second show ?thesis by (rule conjI)
qed

text \<open>
  The theorem at the store with one pending task, with clock readings 1700000000005 and
  1700000000009.
\<close>

theorem updateTaskStatus_round_trip_witness:
  "wf_store exampleStore
   \<and> getTaskById ''task-1700000000000-k3j9x2a1b'' exampleStore = Some 0
   \<and> ''pending'' \<in> set validStatuses
   \<and> status (heap exampleStore ! 0) = ''pending''
   \<and> contents (snd (updateTaskStatus 1700000000009 ''task-1700000000000-k3j9x2a1b'' (JStr ''pending'')
        (snd (updateTaskStatus 1700000000005 ''task-1700000000000-k3j9x2a1b'' (JStr ''completed'')
           exampleStore))))
      = [\<lparr>id_t = ''task-1700000000000-k3j9x2a1b'', title = ''Original Task'',
          status = ''pending'', createdAt = 1700000000000, updatedAt = 1700000000009\<rparr>]
   \<and> contents (snd (updateTaskStatus 1700000000005 ''task-1700000000000-k3j9x2a1b''
        (JStr ''pending'') exampleStore))
      = [\<lparr>id_t = ''task-1700000000000-k3j9x2a1b'', title = ''Original Task'',
          status = ''pending'', createdAt = 1700000000000, updatedAt = 1700000000005\<rparr>]"
proof -
  have g: "getTaskById ''task-1700000000000-k3j9x2a1b'' exampleStore = Some 0"
    by (simp add: getTaskById_def exampleStore_eq)
  have h: "''pending'' \<in> set validStatuses" "status (heap exampleStore ! 0) = ''pending''"
    by (simp_all add: exampleStore_eq validStatuses_def)
  have c: "contents (snd (updateTaskStatus 1700000000009 ''task-1700000000000-k3j9x2a1b'' (JStr ''pending'')
        (snd (updateTaskStatus 1700000000005 ''task-1700000000000-k3j9x2a1b'' (JStr ''completed'')
           exampleStore))))
      = [\<lparr>id_t = ''task-1700000000000-k3j9x2a1b'', title = ''Original Task'',
          status = ''pending'', createdAt = 1700000000000, updatedAt = 1700000000009\<rparr>]"
    "contents (snd (updateTaskStatus 1700000000005 ''task-1700000000000-k3j9x2a1b''
        (JStr ''pending'') exampleStore))
      = [\<lparr>id_t = ''task-1700000000000-k3j9x2a1b'', title = ''Original Task'',
          status = ''pending'', createdAt = 1700000000000, updatedAt = 1700000000005\<rparr>]"
    by (simp_all add: exampleStore_eq updateTaskStatus_def includes_js_def
          validStatuses_def contents_def)
  show ?thesis
    using updateTaskStatus_round_trip [OF wf_store_example g, of 1700000000005 1700000000009]
      wf_store_example g h c
    by simp
qed

text \<open>
  \<open>updateTaskStatus\<close> tests the status before it looks the task up. A status argument
  other than the strings \<open>pending\<close> and \<open>completed\<close> is rejected whatever the id: with
  the message that lists the two allowed values when the argument converts to a string,
  with a \<open>TypeError\<close> when it does not. The not-found failure occurs exactly when the
  status is one of the two and \<open>getTaskById\<close> finds no task with the id.
\<close>

lemma status_checked_before_lookup:
  "(\<not> includes_js validStatuses s \<longrightarrow>
      updateTaskStatus now taskId s st =
        (case templateString s of
           None \<Rightarrow> (Inl TypeError, st)
         | Some m \<Rightarrow> (Inl (InvalidStatus ''Status must be one of: pending, completed''), st)))
   \<and> ((\<exists>m. fst (updateTaskStatus now taskId s st) = Inl (NotFound m)) \<longleftrightarrow>
        (s = JStr ''pending'' \<or> s = JStr ''completed'') \<and> getTaskById taskId st = None)
   \<and> (includes_js validStatuses s \<longleftrightarrow> s = JStr ''pending'' \<or> s = JStr ''completed'')"
  by (cases s)
     (auto simp: updateTaskStatus_def join_validStatuses includes_validStatuses getTaskById_def
           split: option.splits)

text \<open>
  C9: for every id and every status outside \<open>pending\<close> and \<open>completed\<close>,
  \<open>updateTaskStatus\<close> should fail with the error whose message lists the two allowed
  values, never with the not-found error. For a status that cannot be converted to a
  string, such as the object that the request body \<open>{"status": {"toString": null}}\<close>
  gives, or a symbol, the call fails with a \<open>TypeError\<close> instead: it is raised while the
  log message is built, before the intended error is thrown. A status word that is not
  allowed gets the intended error.
\<close>

theorem unconvertible_status_raises_TypeError:
  "\<not> includes_js validStatuses (JObject None)
   \<and> updateTaskStatus 7 ''task-1700000000000-k3j9x2a1b'' (JObject None) exampleStore
       = (Inl TypeError, exampleStore)
   \<and> updateTaskStatus 7 ''missing'' JSymbol exampleStore = (Inl TypeError, exampleStore)
   \<and> updateTaskStatus 7 ''task-1700000000000-k3j9x2a1b'' (JStr ''done'') exampleStore
       = (Inl (InvalidStatus ''Status must be one of: pending, completed''), exampleStore)"
  by (simp add: updateTaskStatus_def includes_js_def validStatuses_def templateString_def)

section \<open>Failing operations\<close>

text \<open>
  C10: whenever \<open>createTask\<close>, \<open>updateTaskStatus\<close> or \<open>deleteTask\<close> fails, the store
  after the call is the store before it: the same array of the same objects, with every
  field of every task, \<open>updatedAt\<close> included, unchanged.
\<close>

theorem failing_operation_leaves_store:
  "(fst (createTask now rnd nowC nowU v st) = Inl e \<longrightarrow>
      snd (createTask now rnd nowC nowU v st) = st)
   \<and> (fst (updateTaskStatus now taskId s st) = Inl e \<longrightarrow>
      snd (updateTaskStatus now taskId s st) = st)
   \<and> (fst (deleteTask taskId st) = Inl e \<longrightarrow> snd (deleteTask taskId st) = st)"
  by (auto simp: createTask_def alloc_def updateTaskStatus_def deleteTask_def Let_def
           split: jsval.splits if_splits option.splits)

text \<open>One failing call of each operation on the store with one task.\<close>

theorem failing_operation_leaves_store_witness:
  "fst (createTask 7 ''zz'' 7 7 (JStr ''   '') exampleStore)
     = Inl (InvalidTitle ''Task title is required and must be a non-empty string'')
   \<and> snd (createTask 7 ''zz'' 7 7 (JStr ''   '') exampleStore) = exampleStore
   \<and> fst (updateTaskStatus 7 ''task-1700000000000-k3j9x2a1b'' (JStr ''done'') exampleStore)
     = Inl (InvalidStatus ''Status must be one of: pending, completed'')
   \<and> snd (updateTaskStatus 7 ''task-1700000000000-k3j9x2a1b'' (JStr ''done'') exampleStore)
     = exampleStore
   \<and> fst (deleteTask ''missing'' exampleStore) = Inl (NotFound ''Task with ID missing not found'')
   \<and> snd (deleteTask ''missing'' exampleStore) = exampleStore"
proof -
  have c: "fst (createTask 7 ''zz'' 7 7 (JStr ''   '') exampleStore)
     = Inl (InvalidTitle ''Task title is required and must be a non-empty string'')"
    by (simp add: createTask_def trim_def isWhiteSpace_def)
  have u: "fst (updateTaskStatus 7 ''task-1700000000000-k3j9x2a1b'' (JStr ''done'') exampleStore)
     = Inl (InvalidStatus ''Status must be one of: pending, completed'')"
    by (simp add: updateTaskStatus_def includes_js_def validStatuses_def templateString_def)
  have d: "fst (deleteTask ''missing'' exampleStore) = Inl (NotFound ''Task with ID missing not found'')"
    by (simp add: deleteTask_def exampleStore_eq)
  show ?thesis
    using failing_operation_leaves_store [where now = 7 and rnd = "''zz''" and nowC = 7
        and nowU = 7 and v = "JStr ''   ''" and st = exampleStore and s = "JStr ''done''"
        and taskId = "''task-1700000000000-k3j9x2a1b''"]
      failing_operation_leaves_store [where taskId = "''missing''" and st = exampleStore] c u d
    by simp
qed

section \<open>Deletion\<close>

lemma getTaskById_None_iff:
  "getTaskById taskId st = None \<longleftrightarrow> taskId \<notin> set (map id_t (contents st))"
  by (auto simp: getTaskById_def contents_def find_None_iff)

lemma contents_remove:
  "contents (st\<lparr>tasks := take i (tasks st) @ drop (Suc i) (tasks st)\<rparr>)
   = take i (contents st) @ drop (Suc i) (contents st)"
  by (simp add: contents_def take_map drop_map)

lemma distinct_remove_nth:
  assumes "distinct (map f xs)" "i < length xs"
  shows "f (xs ! i) \<notin> set (map f (take i xs @ drop (Suc i) xs))"
proof -
  have "xs = take i xs @ xs ! i # drop (Suc i) xs"
    using assms(2) by (simp add: id_take_nth_drop)
  then have "distinct (map f (take i xs) @ f (xs ! i) # map f (drop (Suc i) xs))"
    using assms(1) by (metis list.simps(9) map_append)
  then show ?thesis by auto
qed

lemma distinct_map_remove:
  assumes "distinct (map f xs)"
  shows "distinct (map f (take i xs @ drop (Suc i) xs))"
proof -
  have "distinct (map f (take i xs) @ map f (drop i xs))"
    using assms by (metis append_take_drop_id map_append)
  moreover have "set (drop (Suc i) xs) \<subseteq> set (drop i xs)"
    by (metis drop_Suc set_drop_subset tl_drop drop_drop plus_1_eq_Suc)
  moreover have "distinct (map f (drop (Suc i) xs))"
    using assms by (metis distinct_drop drop_map)
  ultimately show ?thesis by auto
qed

text \<open>
  What \<open>deleteTask\<close> does on an id that \<open>getTaskById\<close> finds (at the stored object
  \<open>r\<close>): it returns \<open>r\<close> with its fields untouched, removes exactly the task at the
  position where the id is found first and keeps the others in order, so the count
  decreases by exactly one; when the ids in the store are unique, a following
  \<open>getTaskById\<close> returns \<open>null\<close>. For an id that is not found it fails with the
  not-found error.
\<close>

lemma deleteTask_removes:
  "(getTaskById taskId st = Some r \<longrightarrow>
      fst (deleteTask taskId st) = Inr r
      \<and> heap (snd (deleteTask taskId st)) = heap st
      \<and> (\<exists>i < length (tasks st).
            tasks st ! i = r \<and> id_t (contents st ! i) = taskId
            \<and> contents (snd (deleteTask taskId st))
                = take i (contents st) @ drop (Suc i) (contents st))
      \<and> getTaskCount (snd (deleteTask taskId st)) + 1 = getTaskCount st
      \<and> (ids_unique st \<longrightarrow> getTaskById taskId (snd (deleteTask taskId st)) = None))
   \<and> (getTaskById taskId st = None \<longrightarrow>
        deleteTask taskId st = (Inl (NotFound (''Task with ID '' @ taskId @ '' not found'')), st))"
proof (intro conjI impI)
  assume "getTaskById taskId st = None"
  then show "deleteTask taskId st = (Inl (NotFound (''Task with ID '' @ taskId @ '' not found'')), st)"
    by (simp add: deleteTask_def getTaskById_def find_None_findIndex)
next
  assume g: "getTaskById taskId st = Some r"
  then obtain i where i: "findIndex (\<lambda>r. id_t (heap st ! r) = taskId) (tasks st) = Some i"
      "tasks st ! i = r"
    unfolding getTaskById_def by (blast dest: find_findIndex)
  from findIndex_Some [OF i(1)] have il: "i < length (tasks st)" "id_t (heap st ! (tasks st ! i)) = taskId"
    by simp_all
  have d: "deleteTask taskId st = (Inr r, st\<lparr>tasks := take i (tasks st) @ drop (Suc i) (tasks st)\<rparr>)"
    using i by (simp add: deleteTask_def)
  show "fst (deleteTask taskId st) = Inr r" by (simp add: d)
  show "heap (snd (deleteTask taskId st)) = heap st" by (simp add: d)
  have ci: "id_t (contents st ! i) = taskId" using il by (simp add: contents_def)
  show "\<exists>i < length (tasks st).
            tasks st ! i = r \<and> id_t (contents st ! i) = taskId
            \<and> contents (snd (deleteTask taskId st))
                = take i (contents st) @ drop (Suc i) (contents st)"
    using il(1) i(2) ci by (auto simp: d contents_remove)
  show "getTaskCount (snd (deleteTask taskId st)) + 1 = getTaskCount st"
    using il(1) by (simp add: d getTaskCount_def)
  show "getTaskById taskId (snd (deleteTask taskId st)) = None" if "ids_unique st"
  proof -
    have "length (contents st) = length (tasks st)" by (simp add: contents_def)
    with il(1) have "i < length (contents st)" by simp
    with that have "id_t (contents st ! i) \<notin> set (map id_t (take i (contents st) @ drop (Suc i) (contents st)))"
      unfolding ids_unique_def by (rule distinct_remove_nth)
    then have "taskId \<notin> set (map id_t
        (contents (st\<lparr>tasks := take i (tasks st) @ drop (Suc i) (tasks st)\<rparr>)))"
      by (simp add: ci contents_remove)
    then show ?thesis
      unfolding d snd_conv by (simp add: getTaskById_None_iff)
  qed
qed

lemma collidedStore_eq:
  "collidedStore =
     \<lparr>heap = [\<lparr>id_t = ''task-1000-k3j9x2a1b'', title = ''Task 1'', status = ''pending'',
                createdAt = 1000, updatedAt = 1000\<rparr>,
              \<lparr>id_t = ''task-1000-k3j9x2a1b'', title = ''Task 2'', status = ''pending'',
                createdAt = 1000, updatedAt = 1000\<rparr>],
      tasks = [0, 1]\<rparr>"
  by (simp add: collidedStore_def createTask_def alloc_def trim_def isWhiteSpace_def
        emptyStore_def generateId_def toString.simps digitChar_def)

text \<open>
  C5: for every id present in the store, \<open>deleteById\<close> should return the removed
  record and remove exactly that task, so that the count decreases by one and a following
  \<open>getById\<close> returns \<open>null\<close>. In the store left by two creations in the same
  millisecond with the same random suffix, both tasks have the id
  \<open>task-1000-k3j9x2a1b\<close>: \<open>deleteTask\<close> of that id returns the first task and removes
  it, the count decreases from 2 to 1, and the following \<open>getTaskById\<close> of the id does
  not return \<open>null\<close> but the second task.
\<close>

theorem deleted_id_still_found:
  "getTaskById ''task-1000-k3j9x2a1b'' collidedStore = Some 0
   \<and> fst (deleteTask ''task-1000-k3j9x2a1b'' collidedStore) = Inr 0
   \<and> getTaskCount collidedStore = 2
   \<and> getTaskCount (snd (deleteTask ''task-1000-k3j9x2a1b'' collidedStore)) = 1
   \<and> map title (contents (snd (deleteTask ''task-1000-k3j9x2a1b'' collidedStore))) = [''Task 2'']
   \<and> getTaskById ''task-1000-k3j9x2a1b''
         (snd (deleteTask ''task-1000-k3j9x2a1b'' collidedStore)) = Some 1"
  by (simp add: collidedStore_eq getTaskById_def deleteTask_def getTaskCount_def contents_def)

section \<open>Uniqueness of ids\<close>

lemma createIds_eq:
  "createIds cs st =
     map (\<lambda>(now, rnd, nowC, nowU, v). generateId now rnd)
       (filter (\<lambda>(now, rnd, nowC, nowU, v). \<exists>s. v = JStr s \<and> trim s \<noteq> []) cs)"
proof (induction cs arbitrary: st)
  case Nil
  show ?case by simp
next
  case (Cons c cs)
  obtain now rnd nowC nowU v where c: "c = (now, rnd, nowC, nowU, v)"
    by (cases c) auto
  show ?case
  proof (cases "\<exists>s. v = JStr s \<and> trim s \<noteq> []")
    case True
    then obtain s where s: "v = JStr s" "trim s \<noteq> []" by blast
    then show ?thesis
      by (simp add: c createTask_ok Cons.IH)
  next
    case False
    then show ?thesis
      by (simp add: c createTask_rejected Cons.IH)
  qed
qed

lemma distinct_createIds:
  assumes "distinct (map (\<lambda>(now, rnd, nowC, nowU, v). (now, rnd)) cs)"
  shows "distinct (createIds cs st)"
proof -
  let ?ok = "\<lambda>(now, rnd, nowC, nowU, v). \<exists>s. v = JStr s \<and> trim s \<noteq> []"
  have d: "distinct (map (\<lambda>(now, rnd, nowC, nowU, v). (now, rnd)) (filter ?ok cs))"
    using assms by (rule distinct_map_filter)
  have "map (\<lambda>(now, rnd, nowC, nowU, v). generateId now rnd) (filter ?ok cs)
        = map (\<lambda>(now, rnd). generateId now rnd)
            (map (\<lambda>(now, rnd, nowC, nowU, v). (now, rnd)) (filter ?ok cs))"
    by (simp add: case_prod_unfold comp_def)
  moreover have "inj_on (\<lambda>(now, rnd). generateId now rnd) A" for A
    by (auto simp: inj_on_def generateId_inj)
  ultimately show ?thesis
    using d by (simp only: createIds_eq distinct_map)
qed

lemma ids_update:
  "map id_t (contents (snd (updateTaskStatus now taskId v st))) = map id_t (contents st)"
  by (auto simp: updateTaskStatus_def contents_def id_t_update split: option.splits jsval.splits)

lemma ids_unique_deleteTask: "ids_unique st \<Longrightarrow> ids_unique (snd (deleteTask taskId st))"
  by (auto simp: deleteTask_def ids_unique_def contents_remove distinct_map_remove
      simp del: map_append split: option.splits)

lemma ids_unique_createTask:
  assumes "wf_store st" "ids_unique st" "generateId now rnd \<notin> set (map id_t (contents st))"
  shows "ids_unique (snd (createTask now rnd nowC nowU v st))"
proof (cases "\<exists>s. v = JStr s \<and> trim s \<noteq> []")
  case True
  then obtain s where s: "v = JStr s" "trim s \<noteq> []" by blast
  show ?thesis
    using assms(2,3) unfolding ids_unique_def s(1) contents_createTask [OF assms(1) s(2)]
    by simp
next
  case False
  with assms(2) show ?thesis by (simp add: createTask_rejected)
qed

text \<open>
  An id is determined by the clock reading and the random suffix of its creation, and
  two ids are equal exactly when both agree. So for every run of successive
  \<open>createTask\<close> calls whose pairs of clock reading and suffix are pairwise distinct, the
  returned ids are pairwise distinct; and the uniqueness of ids in the store is kept by
  \<open>updateTaskStatus\<close> and \<open>deleteTask\<close>, and by \<open>createTask\<close> when the new id is not
  yet in the store.
\<close>

lemma ids_distinct_when_clock_or_suffix_differ:
  "(distinct (map (\<lambda>(now, rnd, nowC, nowU, v). (now, rnd)) cs) \<longrightarrow> distinct (createIds cs st))
   \<and> (wf_store st \<and> ids_unique st \<and> generateId now rnd \<notin> set (map id_t (contents st)) \<longrightarrow>
        ids_unique (snd (createTask now rnd nowC nowU v st)))
   \<and> (ids_unique st \<longrightarrow> ids_unique (snd (updateTaskStatus now taskId v st)))
   \<and> (ids_unique st \<longrightarrow> ids_unique (snd (deleteTask taskId st)))
   \<and> (generateId now rnd = generateId now' rnd' \<longleftrightarrow> now = now' \<and> rnd = rnd')"
  using distinct_createIds [of cs st] ids_unique_createTask [of st now rnd nowC nowU v]
    ids_unique_deleteTask [of st taskId] ids_update [of now taskId v st]
    generateId_inj [of now rnd now' rnd']
  by (simp add: ids_unique_def)

text \<open>
  C8: the ids returned by successive \<open>create\<close> calls should be pairwise distinct, also
  when two calls occur in the same millisecond, so that the ids of the live tasks are
  unique. \<open>generateId\<close> joins the clock reading and a random suffix and compares the
  result with nothing: two successive \<open>createTask\<close> calls in the same millisecond that
  draw the same suffix return the same id, and the store then holds two tasks with one
  id.
\<close>

theorem same_millisecond_same_suffix_collide:
  "createIds [(1000, ''k3j9x2a1b'', 1000, 1000, JStr ''Task 1''),
              (1000, ''k3j9x2a1b'', 1000, 1000, JStr ''Task 2'')] emptyStore
     = [''task-1000-k3j9x2a1b'', ''task-1000-k3j9x2a1b'']
   \<and> \<not> distinct (createIds [(1000, ''k3j9x2a1b'', 1000, 1000, JStr ''Task 1''),
              (1000, ''k3j9x2a1b'', 1000, 1000, JStr ''Task 2'')] emptyStore)
   \<and> map id_t (contents collidedStore) = [''task-1000-k3j9x2a1b'', ''task-1000-k3j9x2a1b'']
   \<and> \<not> ids_unique collidedStore"
  by (simp add: createTask_def alloc_def trim_def isWhiteSpace_def emptyStore_def generateId_def
        toString.simps digitChar_def collidedStore_def contents_def ids_unique_def)

section \<open>Rounding of the completion rate\<close>

lemma ilog2_bounds: "0 < n \<Longrightarrow> 2 ^ ilog2 n \<le> n \<and> n < 2 ^ Suc (ilog2 n)"
proof (induction n rule: ilog2.induct)
  case (1 n)
  show ?case
  proof (cases "n < 2")
    case True
    with "1.prems" have "n = 1" by simp
    then show ?thesis by (simp add: ilog2.simps)
  next
    case False
    then have pos: "0 < n div 2" by simp
    from "1.IH" [OF False pos]
    have ih: "2 ^ ilog2 (n div 2) \<le> n div 2" "n div 2 < 2 ^ Suc (ilog2 (n div 2))" by simp_all
    have e: "ilog2 n = Suc (ilog2 (n div 2))" using False by (simp add: ilog2.simps [of n])
    have "2 * 2 ^ ilog2 (n div 2) \<le> 2 * (n div 2)" using ih(1) by simp
    also have "\<dots> \<le> n" by simp
    finally have lo: "2 ^ ilog2 n \<le> n" by (simp add: e)
    have "n div 2 + 1 \<le> 2 ^ Suc (ilog2 (n div 2))" using ih(2) by simp
    then have "2 * (n div 2) + 2 \<le> 2 * 2 ^ Suc (ilog2 (n div 2))" by simp
    moreover have "n < 2 * (n div 2) + 2" by presburger
    ultimately have hi: "n < 2 ^ Suc (ilog2 n)" by (simp add: e)
    from lo hi show ?thesis by simp
  qed
qed

lemma scale_value:
  assumes "0 < d" "scale n d e = (n', d')"
  shows "0 < d'" and "quot n' d' = quot n d / 2 powi e" and "0 < n \<Longrightarrow> 0 < n'"
proof -
  show "0 < d'" using assms by (auto simp: scale_def split: if_splits)
  show "0 < n \<Longrightarrow> 0 < n'" using assms by (auto simp: scale_def split: if_splits)
  show "quot n' d' = quot n d / 2 powi e"
  proof (cases "0 \<le> e")
    case True
    with assms show ?thesis by (auto simp: scale_def quot_def power_int_def)
  next
    case False
    with assms show ?thesis
      by (auto simp: scale_def quot_def power_int_def field_simps)
  qed
qed

lemma roundQuot_error:
  assumes "0 < d"
  shows "\<bar>of_int (roundQuot n d) - quot n d\<bar> \<le> 1 / 2"
proof -
  define q where "q = n div d"
  define r where "r = n mod d"
  define f :: rat where "f = of_int r / of_int d"
  have r: "0 \<le> r" "r < d" using assms by (simp_all add: r_def)
  have n: "n = q * d + r" by (simp add: q_def r_def)
  have dq: "(of_int d :: rat) > 0" using assms by simp
  have Q: "quot n d = of_int q + f"
    using assms by (simp add: quot_def n f_def field_simps)
  have f: "0 \<le> f" "f < 1" using r assms by (simp_all add: f_def)
  have cmp: "2 * r < d \<longleftrightarrow> f < 1 / 2" "d < 2 * r \<longleftrightarrow> 1 / 2 < f"
  proof -
    have "2 * r < d \<longleftrightarrow> (of_int (2 * r) :: rat) < of_int d" by (simp only: of_int_less_iff)
    also have "\<dots> \<longleftrightarrow> f < 1 / 2" using dq by (simp add: f_def field_simps)
    finally show "2 * r < d \<longleftrightarrow> f < 1 / 2" .
    have "d < 2 * r \<longleftrightarrow> (of_int d :: rat) < of_int (2 * r)" by (simp only: of_int_less_iff)
    also have "\<dots> \<longleftrightarrow> 1 / 2 < f" using dq by (simp add: f_def field_simps)
    finally show "d < 2 * r \<longleftrightarrow> 1 / 2 < f" .
  qed
  have res: "roundQuot n d = (if 2 * r < d then q else if d < 2 * r then q + 1
                               else if even q then q else q + 1)"
    by (simp add: roundQuot_def Let_def q_def r_def)
  consider "2 * r < d" | "d < 2 * r" | "\<not> 2 * r < d" "\<not> d < 2 * r" by linarith
  then show ?thesis
  proof cases
    case 1
    then have "roundQuot n d = q" by (simp add: res)
    moreover from 1 have "f < 1 / 2" by (simp add: cmp)
    ultimately show ?thesis using f by (simp add: Q)
  next
    case 2
    then have "roundQuot n d = q + 1" by (simp add: res)
    moreover from 2 have "1 / 2 < f" by (simp add: cmp)
    ultimately show ?thesis using f by (simp add: Q)
  next
    case 3
    then have "f = 1 / 2" using cmp by linarith
    moreover have "roundQuot n d = q \<or> roundQuot n d = q + 1" using 3 by (simp add: res)
    ultimately show ?thesis by (auto simp: Q)
  qed
qed

lemma exponent_bounds:
  assumes "0 < n" "0 < d"
  shows "2 powi (exponent n d) \<le> quot n d" and "quot n d < 2 powi (exponent n d + 1)"
proof -
  define a where "a = ilog2 n"
  define b where "b = ilog2 d"
  define e0 where "e0 = int a - int b"
  obtain n' d' where sc: "scale n d e0 = (n', d')" by (cases "scale n d e0")
  have na: "2 ^ a \<le> n" "n < 2 ^ Suc a" using ilog2_bounds [OF assms(1)] by (simp_all add: a_def)
  have db: "2 ^ b \<le> d" "d < 2 ^ Suc b" using ilog2_bounds [OF assms(2)] by (simp_all add: b_def)
  have dq: "(0::rat) < of_int d" "(0::rat) < of_int n" using assms by simp_all
  have nar: "(2::rat) ^ a \<le> of_int n" "(of_int n :: rat) < 2 ^ Suc a"
    using na by (metis of_int_le_iff of_int_numeral of_int_power, metis of_int_less_iff of_int_numeral of_int_power)
  have dbr: "(2::rat) ^ b \<le> of_int d" "(of_int d :: rat) < 2 ^ Suc b"
    using db by (metis of_int_le_iff of_int_numeral of_int_power, metis of_int_less_iff of_int_numeral of_int_power)
  have p0: "(2::rat) powi e0 = 2 ^ a / 2 ^ b"
    by (simp add: e0_def power_int_diff)
  have hi: "quot n d < 2 powi (e0 + 1)"
  proof -
    have "quot n d < 2 ^ Suc a / of_int d"
      unfolding quot_def using nar(2) dq(1) by (simp add: divide_strict_right_mono)
    also have "\<dots> \<le> 2 ^ Suc a / 2 ^ b"
      using dbr(1) by (simp add: frac_le)
    also have "\<dots> = 2 powi (e0 + 1)"
      by (simp add: power_int_add p0)
    finally show ?thesis .
  qed
  have lo: "2 powi (e0 - 1) < quot n d"
  proof -
    have "(2::rat) powi (e0 - 1) = 2 ^ a / 2 ^ Suc b"
      by (simp add: power_int_diff p0)
    also have "\<dots> < 2 ^ a / of_int d"
      using dbr(2) dq(1) by (simp add: frac_less2)
    also have "\<dots> \<le> quot n d"
      unfolding quot_def using nar(1) dq(1) by (simp add: divide_right_mono)
    finally show ?thesis .
  qed
  have d': "0 < d'" and q': "quot n' d' = quot n d / 2 powi e0"
    using scale_value [OF assms(2) sc] by simp_all
  have test: "d' \<le> n' \<longleftrightarrow> 2 powi e0 \<le> quot n d"
  proof -
    have "d' \<le> n' \<longleftrightarrow> (of_int d' :: rat) \<le> of_int n'" by (simp only: of_int_le_iff)
    also have "\<dots> \<longleftrightarrow> 1 \<le> quot n' d'" using d' by (simp add: quot_def)
    also have "\<dots> \<longleftrightarrow> 2 powi e0 \<le> quot n d" by (simp add: q' field_simps)
    finally show ?thesis .
  qed
  have ex: "exponent n d = (if d' \<le> n' then e0 else e0 - 1)"
    using sc unfolding e0_def a_def b_def by (simp add: exponent_def Let_def)
  show "2 powi (exponent n d) \<le> quot n d"
    using lo test by (auto simp: ex)
  show "quot n d < 2 powi (exponent n d + 1)"
    using hi test by (auto simp: ex)
qed



lemma fl_error:
  assumes "0 < n" "0 < d"
  shows "\<bar>dval (fl n d) - quot n d\<bar> \<le> quot n d / 2 ^ 53"
    and "0 < fst (fl n d)"
proof -
  define e where "e = exponent n d - 52"
  obtain n' d' where sc: "scale n d e = (n', d')" by (cases "scale n d e")
  have d': "0 < d'" and q': "quot n' d' = quot n d / 2 powi e"
    using scale_value [OF assms(2) sc] by simp_all
  have f: "fl n d = (roundQuot n' d', e)"
    using assms(1) sc unfolding e_def by (simp add: fl_def Let_def)
  have pe: "(0::rat) < 2 powi e" by simp
  have lo: "2 powi (exponent n d) \<le> quot n d" using assms by (rule exponent_bounds)
  have split: "(2::rat) powi (exponent n d) = 2 powi e * 2 ^ 52"
    by (simp add: e_def power_int_diff)
  have err: "\<bar>of_int (roundQuot n' d') - quot n' d'\<bar> \<le> 1 / 2"
    using d' by (rule roundQuot_error)
  have "dval (fl n d) - quot n d = (of_int (roundQuot n' d') - quot n' d') * 2 powi e"
    by (simp add: f dval_def q' field_simps)
  then have "\<bar>dval (fl n d) - quot n d\<bar> = \<bar>of_int (roundQuot n' d') - quot n' d'\<bar> * 2 powi e"
    using pe by (simp add: abs_mult)
  also have "\<dots> \<le> 1 / 2 * 2 powi e"
    using err pe by (simp add: mult_right_mono)
  also have "\<dots> = 2 powi e * 2 ^ 52 / 2 ^ 53" by simp
  also have "\<dots> \<le> quot n d / 2 ^ 53"
    using lo unfolding split by (simp add: divide_right_mono)
  finally show "\<bar>dval (fl n d) - quot n d\<bar> \<le> quot n d / 2 ^ 53" .
  have "2 ^ 52 \<le> quot n' d'"
    using lo pe unfolding split q' by (simp add: field_simps)
  moreover have "(1::rat) \<le> 2 ^ 52" by simp
  ultimately have "(0::rat) < of_int (roundQuot n' d')" using err by linarith
  then show "0 < fst (fl n d)" by (simp add: f)
qed

lemma mathRound_floor: "mathRound x = \<lfloor>dval x + 1 / 2\<rfloor>"
proof (cases x)
  case (Pair m e)
  show ?thesis
  proof (cases "0 \<le> e")
    case True
    have "dval x = of_int (m * 2 ^ nat e)"
      using True by (simp add: Pair dval_def power_int_def)
    then have "\<lfloor>dval x + 1 / 2\<rfloor> = m * 2 ^ nat e"
      by (simp only: floor_eq_iff) simp
    with True show ?thesis by (simp add: Pair mathRound_def)
  next
    case False
    define k where "k = nat (- e)"
    have k: "nat (1 - e) = Suc k" using False by (simp add: k_def)
    have "dval x + 1 / 2 = of_int (2 * m + 2 ^ k) / of_int (2 ^ Suc k)"
      using False by (simp add: Pair dval_def power_int_def k_def field_simps)
    then have "\<lfloor>dval x + 1 / 2\<rfloor> = (2 * m + 2 ^ k) div 2 ^ Suc k"
      by (simp only: floor_divide_of_int_eq)
    with False show ?thesis by (simp add: Pair mathRound_def k k_def)
  qed
qed

lemma times_js_error:
  assumes "0 < fst x" "0 < k"
  shows "\<bar>dval (times_js x k) - dval x * of_nat k\<bar> \<le> dval x * of_nat k / 2 ^ 53"
proof (cases x)
  case (Pair m e)
  with assms have m: "0 < m * int k" by simp
  show ?thesis
  proof (cases "0 \<le> e")
    case True
    have q: "quot (m * int k * 2 ^ nat e) 1 = dval x * of_nat k"
      using True by (simp add: quot_def Pair dval_def power_int_def)
    have "0 < m * int k * 2 ^ nat e" using m by simp
    from fl_error(1) [OF this, of 1] True show ?thesis
      by (simp add: times_js_def Pair q [unfolded Pair])
  next
    case False
    have q: "quot (m * int k) (2 ^ nat (- e)) = dval x * of_nat k"
      using False by (simp add: quot_def Pair dval_def power_int_def field_simps)
    have "(0::int) < 2 ^ nat (- e)" by simp
    from fl_error(1) [OF m this] False show ?thesis
      by (simp add: times_js_def Pair q [unfolded Pair])
  qed
qed


lemma roundHalfUp_div:
  assumes "0 < t"
  shows "roundHalfUp (of_nat c / of_nat t * 100) = (200 * int c + int t) div (2 * int t)"
proof -
  have "(of_nat c / of_nat t * 100 + 1 / 2 :: rat)
        = of_int (200 * int c + int t) / of_int (2 * int t)"
    using assms by (simp add: field_simps)
  then show ?thesis
    unfolding roundHalfUp_def by (simp only: floor_divide_of_int_eq)
qed

lemma percentage_error:
  assumes "0 < t" "c \<le> t"
  shows "\<bar>dval (times_js (divide_js c t) 100) - of_nat c / of_nat t * 100\<bar> \<le> 300 / 2 ^ 53"
proof (cases "c = 0")
  case True
  then show ?thesis
    by (simp add: divide_js_def times_js_def fl_def dval_def)
next
  case False
  define Q :: rat where "Q = of_nat c / of_nat t"
  define y1 where "y1 = dval (divide_js c t)"
  define y2 where "y2 = dval (times_js (divide_js c t) 100)"
  have c: "0 < int c" "0 < int t" using False assms by simp_all
  have Qq: "quot (int c) (int t) = Q" by (simp add: quot_def Q_def)
  have Q: "0 < Q" "Q \<le> 1" using False assms by (simp_all add: Q_def)
  have e1: "\<bar>y1 - Q\<bar> \<le> Q / 2 ^ 53" and pos: "0 < fst (divide_js c t)"
    using fl_error [OF c] by (simp_all add: y1_def divide_js_def Qq)
  have e2: "\<bar>y2 - y1 * 100\<bar> \<le> y1 * 100 / 2 ^ 53"
    using times_js_error [OF pos, of 100] by (simp add: y1_def y2_def)
  have u: "Q / 2 ^ 53 \<le> 1 / 2 ^ 53" using Q by (simp add: divide_right_mono)
  from e1 u have b1: "\<bar>y1 - Q\<bar> \<le> 1 / 2 ^ 53" by linarith
  moreover have "(1 / 2 ^ 53 :: rat) \<le> 1" by simp
  ultimately have y1: "y1 \<le> 2" using Q by linarith
  then have "y1 * 100 / 2 ^ 53 \<le> 200 / 2 ^ 53" by simp
  with e2 have b2: "\<bar>y2 - y1 * 100\<bar> \<le> 200 / 2 ^ 53" by linarith
  define w :: rat where "w = 1 / 2 ^ 53"
  have w1: "y1 - Q \<le> w" "Q - y1 \<le> w"
    using b1 by (simp_all only: w_def abs_le_iff minus_diff_eq)
  have w2: "y2 - y1 * 100 \<le> 200 * w" "y1 * 100 - y2 \<le> 200 * w"
    using b2 by (simp_all only: w_def abs_le_iff minus_diff_eq times_divide_eq_right mult_1_right)
  have "y2 - Q * 100 \<le> 300 * w" "Q * 100 - y2 \<le> 300 * w"
    using w1 w2 by linarith+
  then have "\<bar>y2 - Q * 100\<bar> \<le> 300 * w"
    by (simp only: abs_le_iff minus_diff_eq)
  then show ?thesis by (simp add: y2_def Q_def w_def)
qed

lemma completionRate_exact:
  assumes "0 < t" "c \<le> t" "t < 2 ^ 32"
    and "frac (of_nat c / of_nat t * 100 :: rat) \<noteq> 1 / 2"
  shows "completionRate c t = roundHalfUp (of_nat c / of_nat t * 100)"
proof -
  define E :: rat where "E = of_nat c / of_nat t * 100"
  define A where "A = 200 * int c + int t"
  define B where "B = 2 * int t"
  define N where "N = A div B"
  define r where "r = A mod B"
  define y where "y = dval (times_js (divide_js c t) 100)"
  have B: "0 < B" "B \<le> 2 ^ 33" using assms(1,3) by (simp_all add: B_def)
  have X: "E + 1 / 2 = of_int A / of_int B"
    using assms(1) by (simp add: E_def A_def B_def field_simps)
  have AB: "A = N * B + r" by (simp add: N_def r_def)
  have r0: "0 \<le> r" "r < B" using B by (simp_all add: r_def)
  have "r \<noteq> 0"
  proof
    assume "r = 0"
    then have "E + 1 / 2 = of_int N" using B by (simp add: X AB)
    then have "E = of_int (N - 1) + 1 / 2" by simp
    then have "frac E = 1 / 2" by (simp only: frac_unique_iff) simp
    with assms(4) show False by (simp add: E_def)
  qed
  with r0 have r: "1 \<le> r" "r \<le> B - 1" by simp_all
  define g :: rat where "g = 1 / of_int B"
  have Bq: "(0::rat) < of_int B" using B by simp
  have g: "300 / 2 ^ 53 < g"
  proof -
    have "(of_int B :: rat) \<le> 2 ^ 33" using B(2) by (metis of_int_le_iff of_int_numeral of_int_power)
    then have "1 / 2 ^ 33 \<le> g" using Bq unfolding g_def by (simp add: frac_le)
    moreover have "(300 / 2 ^ 53 :: rat) < 1 / 2 ^ 33" by simp
    ultimately show ?thesis by linarith
  qed
  have Xr: "E + 1 / 2 = of_int N + of_int r * g"
    using Bq by (simp add: X AB g_def field_simps)
  have rg: "g \<le> of_int r * g" "of_int r * g \<le> 1 - g"
  proof -
    have gp: "0 < g" using Bq by (simp add: g_def)
    have "(1::rat) \<le> of_int r" using r(1) by simp
    then show "g \<le> of_int r * g" using gp by simp
    have "(of_int r :: rat) \<le> of_int B - 1" using r(2) by (metis of_int_le_iff of_int_diff of_int_1)
    then have "of_int r * g \<le> (of_int B - 1) * g" using gp by (simp only: mult_right_mono less_imp_le)
    also have "\<dots> = 1 - g" using Bq by (simp add: g_def field_simps)
    finally show "of_int r * g \<le> 1 - g" .
  qed
  have err: "\<bar>y - E\<bar> \<le> 300 / 2 ^ 53"
    using percentage_error [OF assms(1,2)] by (simp add: y_def E_def)
  have "of_int N \<le> y + 1 / 2" "y + 1 / 2 < of_int N + 1"
    using err g rg Xr by linarith+
  then have "\<lfloor>y + 1 / 2\<rfloor> = N" by (simp add: floor_eq_iff)
  then have "completionRate c t = N"
    using assms(1) by (simp add: completionRate_def mathRound_floor y_def)
  also have "N = roundHalfUp (of_nat c / of_nat t * 100)"
    by (simp only: roundHalfUp_div [OF assms(1)] N_def A_def B_def)
  finally show ?thesis .
qed

lemma ceil_div: "- ((- n) div s) = \<lceil>rat_of_int n / rat_of_int s\<rceil>"
  by (simp add: ceiling_divide_eq_div)

lemma mathCeil_ceiling: "mathCeil x = \<lceil>dval x\<rceil>"
proof (cases x)
  case (Pair m e)
  show ?thesis
  proof (cases "0 \<le> e")
    case True
    have "dval x = of_int (m * 2 ^ nat e)"
      using True by (simp add: Pair dval_def power_int_def)
    then have "\<lceil>dval x\<rceil> = m * 2 ^ nat e" by (simp only: ceiling_of_int)
    with True show ?thesis by (simp add: Pair mathCeil_def)
  next
    case False
    have "dval x = of_int m / of_int (2 ^ nat (- e))"
      using False by (simp add: Pair dval_def power_int_def field_simps)
    then have "\<lceil>dval x\<rceil> = - ((- m) div 2 ^ nat (- e))"
      by (simp only: ceiling_divide_eq_div)
    with False show ?thesis by (simp add: Pair mathCeil_def)
  qed
qed

lemma roundQuot_exact: "0 < d \<Longrightarrow> roundQuot (k * d) d = k"
  by (simp add: roundQuot_def)

lemma exponent_le:
  assumes "0 < n" "0 < d" "quot n d < 2 ^ 53"
  shows "exponent n d \<le> 52"
proof (rule ccontr)
  assume "\<not> exponent n d \<le> 52"
  then have "53 \<le> exponent n d" by simp
  then have "(2::rat) powi 53 \<le> 2 powi (exponent n d)"
    by (intro power_int_increasing) simp_all
  also have "\<dots> \<le> quot n d" using assms(1,2) by (rule exponent_bounds)
  finally show False using assms(3) by simp
qed

lemma fl_integer:
  assumes "0 < k" "0 < d" "k < 2 ^ 53"
  shows "dval (fl (k * d) d) = of_int k"
proof -
  have n: "0 < k * d" using assms by simp
  have q: "quot (k * d) d = of_int k" using assms(2) by (simp add: quot_def)
  have "quot (k * d) d < 2 ^ 53"
    unfolding q using assms(3) by (metis of_int_less_iff of_int_numeral of_int_power)
  with n assms(2) have "exponent (k * d) d \<le> 52" by (rule exponent_le)
  then have e: "\<not> 0 \<le> exponent (k * d) d - 52 \<or> exponent (k * d) d - 52 = 0" by linarith
  define j where "j = nat (52 - exponent (k * d) d)"
  have sc: "scale (k * d) d (exponent (k * d) d - 52) = (k * 2 ^ j * d, d)"
    using e by (auto simp: scale_def j_def algebra_simps)
  have je: "exponent (k * d) d - 52 = - int j" using e by (auto simp: j_def)
  have rq: "roundQuot (k * 2 ^ j * d) d = k * 2 ^ j"
    using assms(2) by (rule roundQuot_exact)
  have nz: "k * d \<noteq> 0" using assms(1,2) by simp
  have "fl (k * d) d = (k * 2 ^ j, - int j)"
    unfolding fl_def Let_def sc by (simp only: nz if_False split_conv rq je)
  then show ?thesis
    by (simp add: dval_def power_int_minus field_simps)
qed

lemma double_quotient_ceiling:
  assumes "0 < s" "n < 2 ^ 32"
  shows "mathCeil (fl (int n) s) = - ((- int n) div s)"
proof (cases "n = 0")
  case True
  then show ?thesis by (simp add: fl_def mathCeil_def)
next
  case False
  define K where "K = - ((- int n) div s)"
  define Q where "Q = quot (int n) s"
  define y where "y = dval (fl (int n) s)"
  have n: "0 < int n" using False by simp
  have sq: "(0::rat) < of_int s" using assms(1) by simp
  have K: "K = \<lceil>Q\<rceil>" unfolding K_def Q_def quot_def by (rule ceil_div)
  have Qpos: "0 < Q" using n sq by (simp add: Q_def quot_def)
  have err: "\<bar>y - Q\<bar> \<le> Q / 2 ^ 53"
    using fl_error(1) [OF n assms(1)] by (simp add: y_def Q_def)
  have nb: "(of_nat n :: rat) < 2 ^ 53"
  proof -
    have "n < 2 ^ 53" using assms(2) by (rule less_trans) simp
    then show ?thesis by (metis of_nat_less_iff of_nat_numeral of_nat_power)
  qed
  have slack: "Q / 2 ^ 53 < 1 / of_int s"
  proof -
    have "Q / 2 ^ 53 = (of_nat n / 2 ^ 53) / of_int s" by (simp add: Q_def quot_def)
    also have "\<dots> < 1 / of_int s" using nb sq by (intro divide_strict_right_mono) simp_all
    finally show ?thesis .
  qed
  define A where "A = int n"
  define r where "r = (- A) mod s"
  have r: "0 \<le> r" "r < s" using assms(1) by (simp_all add: r_def)
  have "- A = (- A) div s * s + r" by (simp add: r_def)
  then have AK: "A = K * s - r" by (simp add: K_def A_def)
  have QK: "Q = of_int K - of_int r / of_int s"
    using sq by (simp add: Q_def quot_def A_def [symmetric] AK field_simps)
  have Kpos: "0 < K" using Qpos by (simp add: K)
  have Kn: "K \<le> int n"
  proof -
    have "K * 1 \<le> K * s" using Kpos assms(1) by (intro mult_left_mono) simp_all
    moreover have "K * s = A + r" by (simp add: AK)
    moreover have "A + r < A + s" using r by simp
    ultimately have "K < A + s" by simp
    have "K * s < (A + 1) * s \<or> K \<le> A"
    proof (cases "K \<le> A")
      case True then show ?thesis ..
    next
      case False
      then have "A + 1 \<le> K" by simp
      then have "(A + 1) * s \<le> K * s" using assms(1) by (intro mult_right_mono) simp_all
      then have "A * s + s \<le> A + r" by (simp add: AK algebra_simps)
      moreover have "A \<le> A * s" using n assms(1) by (simp add: A_def)
      ultimately show ?thesis using r by simp
    qed
    then show ?thesis
    proof
      assume "K \<le> A" then show ?thesis by (simp add: A_def)
    next
      assume "K * s < (A + 1) * s"
      then have "K < A + 1" using assms(1) by simp
      then show ?thesis by (simp add: A_def)
    qed
  qed
  show ?thesis
  proof (cases "r = 0")
    case True
    with AK have "int n = K * s" unfolding A_def by simp
    moreover have "K < 2 ^ 53"
    proof -
      have "int n < 2 ^ 32" using assms(2) by (metis of_nat_less_iff of_nat_numeral of_nat_power)
      with Kn show ?thesis by simp
    qed
    ultimately have "y = of_int K"
      using fl_integer [OF Kpos assms(1)] by (simp add: y_def)
    then have "\<lceil>y\<rceil> = K" by (simp only: ceiling_of_int)
    then show ?thesis unfolding mathCeil_ceiling y_def K_def .
  next
    case False
    with r have r1: "1 \<le> r" "r \<le> s - 1" by simp_all
    define g :: rat where "g = 1 / of_int s"
    have gp: "0 < g" using sq by (simp add: g_def)
    have rg: "g \<le> of_int r * g" "of_int r * g \<le> 1 - g"
    proof -
      have "(1::rat) \<le> of_int r" using r1(1) by simp
      then show "g \<le> of_int r * g" using gp by simp
      have "(of_int r :: rat) \<le> of_int s - 1"
        using r1(2) by (metis of_int_le_iff of_int_diff of_int_1)
      then have "of_int r * g \<le> (of_int s - 1) * g"
        using gp by (simp only: mult_right_mono less_imp_le)
      also have "\<dots> = 1 - g" using sq by (simp add: g_def field_simps)
      finally show "of_int r * g \<le> 1 - g" .
    qed
    have Qg: "Q = of_int K - of_int r * g" by (simp add: QK g_def)
    have "\<bar>y - Q\<bar> < g" using err slack unfolding g_def by (rule le_less_trans)
    then have e1: "y - Q < g" "Q - y < g" by linarith+
    have "of_int K - 1 < y" "y \<le> of_int K"
      using e1 rg Qg gp by linarith+
    then have "\<lceil>y\<rceil> = K" by (simp add: ceiling_eq_iff)
    then show ?thesis unfolding mathCeil_ceiling y_def K_def .
  qed
qed

section \<open>Pagination\<close>

lemma slice_window:
  assumes "0 \<le> a" "0 \<le> b"
  shows "slice xs a (a + b) = take (nat b) (drop (nat a) xs)"
proof (cases "int (length xs) \<le> a")
  case True
  then have "length xs \<le> nat a" by linarith
  with True assms show ?thesis by (simp add: slice_def min_def)
next
  case False
  with assms have k: "min a (int (length xs)) = a" by simp
  have "take (nat (min (a + b) (int (length xs)) - a)) (drop (nat a) xs)
        = take (nat b) (drop (nat a) xs)"
  proof (cases "a + b \<le> int (length xs)")
    case True
    then show ?thesis by (simp add: min_def)
  next
    case False
    then have "length (drop (nat a) xs) \<le> nat b" "length (drop (nat a) xs) \<le> nat (int (length xs) - a)"
      using assms by (simp_all; linarith)+
    then show ?thesis using False by (simp add: min_def)
  qed
  with assms k show ?thesis by (simp add: slice_def Let_def)
qed

lemma totalPages_pos:
  assumes "0 < (s::int)" "0 < (n::int)"
  shows "1 \<le> - ((- n) div s)"
proof -
  have "((- n) div s < 0) = (- n < 0)" using assms(1) by (rule pos_imp_zdiv_neg_iff)
  with assms(2) have "(- n) div s < 0" by linarith
  then show ?thesis by simp
qed

lemma totalPages_zero: "0 < s \<Longrightarrow> - ((- (0::int)) div s) = 0"
  by simp

text \<open>
  C7: for every task sequence \<open>ts\<close>, page number \<open>p\<close> and page size \<open>s > 0\<close>,
  \<open>paginateTasks\<close> reports the number of items and the number of pages
  \<open>\<lceil>length ts / s\<rceil>\<close> (which is \<open>Math.ceil\<close> of the double quotient), clamps \<open>p\<close> into \<open>[1, totalPages]\<close> (to 1 when there is no
  item), returns the \<open>s\<close> items that start at index \<open>(page - 1) * s\<close> (fewer at the
  end of the sequence), and sets \<open>hasNextPage\<close> and \<open>hasPrevPage\<close> by comparing the
  page with the number of pages and with 1. The result is a new value; the sequence
  passed in is not changed. With 4 items and page size 2, page 1 has 2 items, a next and
  no previous page; page 2 has 2 items, no next and a previous page; page 999 is page 2.
\<close>

theorem paginateTasks_clamps:
  assumes "0 < s"
  shows "\<exists>res. paginateTasks ts p s = Some res
     \<and> totalItems res = int (length ts)
     \<and> totalPages res = \<lceil>rat_of_int (int (length ts)) / rat_of_int s\<rceil>
     \<and> (length ts < 2 ^ 32 \<longrightarrow> mathCeil (fl (int (length ts)) s) = totalPages res)
     \<and> pageSize res = s
     \<and> page res = (if ts = [] then 1 else max 1 (min p (totalPages res)))
     \<and> 1 \<le> page res \<and> (ts \<noteq> [] \<longrightarrow> page res \<le> totalPages res)
     \<and> tasks_p res = take (nat s) (drop (nat ((page res - 1) * s)) ts)
     \<and> hasNextPage res = (page res < totalPages res)
     \<and> hasPrevPage res = (1 < page res)
     \<and> (length ts = 4 \<and> s = 2 \<longrightarrow>
          (p = 1 \<longrightarrow> length (tasks_p res) = 2 \<and> hasNextPage res \<and> \<not> hasPrevPage res)
          \<and> (p = 2 \<longrightarrow> length (tasks_p res) = 2 \<and> \<not> hasNextPage res \<and> hasPrevPage res)
          \<and> (p = 999 \<longrightarrow> page res = 2))"
proof -
  define n where "n = int (length ts)"
  define tp where "tp = - ((- n) div s)"
  define cp where "cp = max 1 (min p (if tp = 0 then 1 else tp))"
  define res where "res = \<lparr>tasks_p = slice ts ((cp - 1) * s) ((cp - 1) * s + s), page = cp,
      pageSize = s, totalPages = tp, totalItems = n, hasNextPage = (cp < tp),
      hasPrevPage = (cp > 1)\<rparr>"
  have r: "paginateTasks ts p s = Some res"
    using assms by (simp add: paginateTasks_def Let_def res_def cp_def tp_def n_def)
  have cp1: "1 \<le> cp" by (simp add: cp_def)
  have tp0: "tp = 0" if "ts = []" using that by (simp add: tp_def n_def)
  have tp1: "1 \<le> tp" if "ts \<noteq> []"
    unfolding tp_def using assms by (rule totalPages_pos) (use that in \<open>simp add: n_def\<close>)
  have cpe: "cp = (if ts = [] then 1 else max 1 (min p tp))"
    using tp0 tp1 by (auto simp: cp_def)
  have cpl: "cp \<le> tp" if "ts \<noteq> []" using tp1 [OF that] by (simp add: cp_def)
  have sl: "slice ts ((cp - 1) * s) ((cp - 1) * s + s) = take (nat s) (drop (nat ((cp - 1) * s)) ts)"
    using cp1 assms by (intro slice_window) simp_all
  have f1: "totalItems res = int (length ts)" "pageSize res = s" "page res = cp"
    "totalPages res = tp" "hasNextPage res = (page res < totalPages res)"
    "hasPrevPage res = (1 < page res)"
    by (simp_all add: res_def n_def)
  have f2: "totalPages res = \<lceil>rat_of_int (int (length ts)) / rat_of_int s\<rceil>"
    by (simp add: res_def tp_def n_def ceil_div)
  have f7: "length ts < 2 ^ 32 \<longrightarrow> mathCeil (fl (int (length ts)) s) = totalPages res"
    by (simp add: res_def tp_def n_def double_quotient_ceiling [OF assms])
  have f3: "page res = (if ts = [] then 1 else max 1 (min p (totalPages res)))"
    using cpe by (simp add: f1)
  have f4: "1 \<le> page res" "ts \<noteq> [] \<longrightarrow> page res \<le> totalPages res"
    using cp1 cpl by (simp_all add: f1)
  have f5: "tasks_p res = take (nat s) (drop (nat ((page res - 1) * s)) ts)"
    using sl by (simp add: res_def)
  have f6: "length ts = 4 \<and> s = 2 \<longrightarrow>
          (p = 1 \<longrightarrow> length (tasks_p res) = 2 \<and> hasNextPage res \<and> \<not> hasPrevPage res)
          \<and> (p = 2 \<longrightarrow> length (tasks_p res) = 2 \<and> \<not> hasNextPage res \<and> hasPrevPage res)
          \<and> (p = 999 \<longrightarrow> page res = 2)"
  proof (intro impI, elim conjE)
    assume a: "length ts = 4" "s = 2"
    then have t: "tp = 2" by (simp add: tp_def n_def)
    have c: "p = 1 \<longrightarrow> cp = 1" "p = 2 \<longrightarrow> cp = 2" "p = 999 \<longrightarrow> cp = 2"
      by (simp_all add: cp_def t)
    show "(p = 1 \<longrightarrow> length (tasks_p res) = 2 \<and> hasNextPage res \<and> \<not> hasPrevPage res)
          \<and> (p = 2 \<longrightarrow> length (tasks_p res) = 2 \<and> \<not> hasNextPage res \<and> hasPrevPage res)
          \<and> (p = 999 \<longrightarrow> page res = 2)"
      using c a by (auto simp: f5 f1 t)
  qed
  show ?thesis
    by (intro exI [of _ res] conjI) (rule r f1 f2 f3 f4 f5 f6 f7)+
qed

text \<open>The theorem at four items with page size 2 and requested page 999.\<close>

theorem paginateTasks_clamps_witness:
  "(0::int) < 2
   \<and> length [''a'', ''b'', ''c'', ''d''] < 2 ^ 32
   \<and> mathCeil (fl (int (length [''a'', ''b'', ''c'', ''d''])) 2) = 2
   \<and> map_option page (paginateTasks [''a'', ''b'', ''c'', ''d''] 999 2) = Some 2
   \<and> paginateTasks [''a'', ''b'', ''c'', ''d''] 999 2
       = Some \<lparr>tasks_p = [''c'', ''d''], page = 2, pageSize = 2, totalPages = 2, totalItems = 4,
               hasNextPage = False, hasPrevPage = True\<rparr>
   \<and> paginateTasks [''a'', ''b'', ''c'', ''d''] 1 2
       = Some \<lparr>tasks_p = [''a'', ''b''], page = 1, pageSize = 2, totalPages = 2, totalItems = 4,
               hasNextPage = True, hasPrevPage = False\<rparr>
   \<and> paginateTasks ([] :: string list) 3 10
       = Some \<lparr>tasks_p = [], page = 1, pageSize = 10, totalPages = 0, totalItems = 0,
               hasNextPage = False, hasPrevPage = False\<rparr>"
proof -
  have h: "(0::int) < 2" by simp
  have l: "length [''a'', ''b'', ''c'', ''d''] = 4 \<and> (2::int) = 2" by simp
  have b: "length [''a'', ''b'', ''c'', ''d''] < 2 ^ 32" by simp
  have c: "paginateTasks [''a'', ''b'', ''c'', ''d''] 999 2
       = Some \<lparr>tasks_p = [''c'', ''d''], page = 2, pageSize = 2, totalPages = 2, totalItems = 4,
               hasNextPage = False, hasPrevPage = True\<rparr>"
    "paginateTasks [''a'', ''b'', ''c'', ''d''] 1 2
       = Some \<lparr>tasks_p = [''a'', ''b''], page = 1, pageSize = 2, totalPages = 2, totalItems = 4,
               hasNextPage = True, hasPrevPage = False\<rparr>"
    "paginateTasks ([] :: string list) 3 10
       = Some \<lparr>tasks_p = [], page = 1, pageSize = 10, totalPages = 0, totalItems = 0,
               hasNextPage = False, hasPrevPage = False\<rparr>"
    unfolding paginateTasks_def Let_def by (simp_all add: slice_def Let_def)
  from paginateTasks_clamps [OF h, of "[''a'', ''b'', ''c'', ''d'']" 999]
  obtain res where res: "paginateTasks [''a'', ''b'', ''c'', ''d''] 999 2 = Some res"
    and tp: "length [''a'', ''b'', ''c'', ''d''] < 2 ^ 32 \<longrightarrow>
          mathCeil (fl (int (length [''a'', ''b'', ''c'', ''d''])) 2) = totalPages res"
    and ex: "length [''a'', ''b'', ''c'', ''d''] = 4 \<and> (2::int) = 2 \<longrightarrow>
          ((999::int) = 1 \<longrightarrow> length (tasks_p res) = 2 \<and> hasNextPage res \<and> \<not> hasPrevPage res)
          \<and> ((999::int) = 2 \<longrightarrow> length (tasks_p res) = 2 \<and> \<not> hasNextPage res \<and> hasPrevPage res)
          \<and> ((999::int) = 999 \<longrightarrow> page res = 2)"
    by (elim exE conjE)
  from ex l have "page res = 2" by blast
  with res have p: "map_option page (paginateTasks [''a'', ''b'', ''c'', ''d''] 999 2) = Some 2"
    by simp
  from res c(1) have "res = \<lparr>tasks_p = [''c'', ''d''], page = 2, pageSize = 2, totalPages = 2,
      totalItems = 4, hasNextPage = False, hasPrevPage = True\<rparr>"
    by (simp only: option.inject)
  then have "totalPages res = 2" by simp
  with tp b have m: "mathCeil (fl (int (length [''a'', ''b'', ''c'', ''d''])) 2) = 2" by simp
  show ?thesis
    by (intro conjI) (rule h b m p c)+
qed

section \<open>Statistics\<close>

lemma length_filter_less: "length (filter (\<lambda>i. i < k) [0..<n]) = min k n"
  by (induction n) auto

lemma sampleStore_counts:
  "getTaskCount (sampleStore k n) = n" "getCompletedTaskCount (sampleStore k n) = min k n"
proof -
  show "getTaskCount (sampleStore k n) = n"
    by (simp add: getTaskCount_def sampleStore_def)
  have "filter (\<lambda>r. status (heap (sampleStore k n) ! r) = ''completed'') [0..<n]
        = filter (\<lambda>i. i < k) [0..<n]"
    by (rule filter_cong) (simp_all add: sampleStore_def)
  then show "getCompletedTaskCount (sampleStore k n) = min k n"
    by (simp add: getCompletedTaskCount_def sampleStore_def length_filter_less)
qed

lemmas double_eval =
  completionRate_def mathRound_def times_js_def divide_js_def fl_def roundQuot_def
  exponent_def scale_def ilog2.simps Let_def

lemma completionRate_examples:
  "completionRate 0 0 = 0" "completionRate 2 3 = 67" "completionRate 0 2 = 0"
  "completionRate 2 2 = 100" "completionRate 1 1 = 100" "completionRate 23 40 = 57"
  by (simp_all add: double_eval)

lemma completed_le_total: "getCompletedTaskCount st \<le> getTaskCount st"
  by (simp add: getCompletedTaskCount_def getTaskCount_def)

text \<open>
  The statistics route reports \<open>total = count()\<close>, \<open>completed = completedCount()\<close> and
  \<open>pending = total - completed\<close>, which is never negative; its completion rate is 0 for
  no task and otherwise \<open>Math.round\<close> of the double-precision value of
  \<open>(completed / total) * 100\<close>, which is the exact percentage rounded half up whenever
  the exact percentage is not half-way between two integers (for fewer than \<open>2 ^ 32\<close>
  tasks, the bound on the length of an array). \<open>getTaskStatistics\<close> gives the same
  figures for an array of tasks, its pending count being \<open>total - completed\<close> when every
  status is one of the two allowed values. In particular 0 tasks give 0, 2 completed of 3
  give 67, 0 completed of 2 give 0, and 2 completed of 2 give 100.
\<close>

lemma statistics_derivation:
  "totalTasks (statsRoute st) = getTaskCount st
   \<and> completedTasks (statsRoute st) = getCompletedTaskCount st
   \<and> pendingTasks (statsRoute st) = int (getTaskCount st) - int (getCompletedTaskCount st)
   \<and> 0 \<le> pendingTasks (statsRoute st)
   \<and> (getTaskCount st = 0 \<longrightarrow> rate (statsRoute st) = 0)
   \<and> (0 < getTaskCount st \<and> getTaskCount st < 2 ^ 32
        \<and> frac (of_nat (getCompletedTaskCount st) / of_nat (getTaskCount st) * 100 :: rat) \<noteq> 1 / 2
        \<longrightarrow> rate (statsRoute st)
            = roundHalfUp (of_nat (getCompletedTaskCount st) / of_nat (getTaskCount st) * 100))
   \<and> total_s (getTaskStatistics ts) = length ts
   \<and> completed_s (getTaskStatistics ts) = length (filter (\<lambda>t. status t = ''completed'') ts)
   \<and> (list_all (\<lambda>t. status t = ''pending'' \<or> status t = ''completed'') ts \<longrightarrow>
        pending_s (getTaskStatistics ts)
          = total_s (getTaskStatistics ts) - completed_s (getTaskStatistics ts))
   \<and> (0 < length ts \<and> length ts < 2 ^ 32
        \<and> frac (of_nat (completed_s (getTaskStatistics ts)) / of_nat (length ts) * 100 :: rat)
            \<noteq> 1 / 2
        \<longrightarrow> completionRate_s (getTaskStatistics ts)
            = roundHalfUp (of_nat (completed_s (getTaskStatistics ts)) / of_nat (length ts) * 100))
   \<and> completionRate 0 0 = 0 \<and> completionRate 2 3 = 67
   \<and> completionRate 0 2 = 0 \<and> completionRate 2 2 = 100"
proof -
  have a: "totalTasks (statsRoute st) = getTaskCount st"
    "completedTasks (statsRoute st) = getCompletedTaskCount st"
    "pendingTasks (statsRoute st) = int (getTaskCount st) - int (getCompletedTaskCount st)"
    "rate (statsRoute st) = completionRate (getCompletedTaskCount st) (getTaskCount st)"
    by (simp_all add: statsRoute_def Let_def)
  have b: "0 \<le> pendingTasks (statsRoute st)"
    using completed_le_total [of st] by (simp add: a)
  have c: "getTaskCount st = 0 \<longrightarrow> rate (statsRoute st) = 0"
    by (simp add: a completionRate_def)
  have d: "0 < getTaskCount st \<and> getTaskCount st < 2 ^ 32
        \<and> frac (of_nat (getCompletedTaskCount st) / of_nat (getTaskCount st) * 100 :: rat) \<noteq> 1 / 2
        \<longrightarrow> rate (statsRoute st)
            = roundHalfUp (of_nat (getCompletedTaskCount st) / of_nat (getTaskCount st) * 100)"
    using completionRate_exact [OF _ completed_le_total [of st]] by (simp only: a) blast
  have e: "total_s (getTaskStatistics ts) = length ts"
    "completed_s (getTaskStatistics ts) = length (filter (\<lambda>t. status t = ''completed'') ts)"
    "pending_s (getTaskStatistics ts) = length (filter (\<lambda>t. status t = ''pending'') ts)"
    "completionRate_s (getTaskStatistics ts)
       = completionRate (completed_s (getTaskStatistics ts)) (length ts)"
    by (simp_all add: getTaskStatistics_def Let_def)
  have f: "list_all (\<lambda>t. status t = ''pending'' \<or> status t = ''completed'') ts \<longrightarrow>
        pending_s (getTaskStatistics ts)
          = total_s (getTaskStatistics ts) - completed_s (getTaskStatistics ts)"
    unfolding e by (induction ts) (auto simp: Suc_diff_le)
  have g: "0 < length ts \<and> length ts < 2 ^ 32
        \<and> frac (of_nat (completed_s (getTaskStatistics ts)) / of_nat (length ts) * 100 :: rat)
            \<noteq> 1 / 2
        \<longrightarrow> completionRate_s (getTaskStatistics ts)
            = roundHalfUp (of_nat (completed_s (getTaskStatistics ts)) / of_nat (length ts) * 100)"
  proof -
    have "completed_s (getTaskStatistics ts) \<le> length ts" by (simp add: e)
    from completionRate_exact [OF _ this] show ?thesis by (simp only: e(4)) blast
  qed
  show ?thesis
    by (intro conjI) (rule a b c d e f g completionRate_examples)+
qed

text \<open>
  C6: the statistics should be \<open>total = count()\<close>, \<open>completed = completedCount()\<close>,
  \<open>pending = total - completed\<close> and a completion rate equal to the exact percentage
  \<open>completed / total * 100\<close> rounded half up. With 23 completed tasks of 40 the exact
  percentage is 57.5, which rounds half up to 58. The route computes
  \<open>Math.round((completed / total) * 100)\<close> on doubles: the double nearest to 23 / 40 lies
  below 0.575, its product with 100 is the double just below 57.5, and \<open>Math.round\<close>
  gives 57.
\<close>

theorem completionRate_rounds_down_a_tie:
  "totalTasks (statsRoute (sampleStore 23 40)) = 40
   \<and> completedTasks (statsRoute (sampleStore 23 40)) = 23
   \<and> rate (statsRoute (sampleStore 23 40)) = 57
   \<and> roundHalfUp (of_nat 23 / of_nat 40 * 100) = 58"
  by (simp add: statsRoute_def sampleStore_counts completionRate_examples roundHalfUp_def)

end
